theory Spec2Isabelle
  imports Complex_Main "HOL-Library.Signed_Division" "HOL-Library.Word"
begin

section \<open>The character-based smoothing filter\<close>

text \<open>
  Source: \<^verbatim>\<open>src/tesseract-ocr-utils.cpp\<close>, class \<^verbatim>\<open>CharacterBasedSmoothingFilter\<close>.
  The object holds \<^verbatim>\<open>word_length\<close>, \<^verbatim>\<open>window_size\<close> (both \<^verbatim>\<open>size_t\<close>) and
  \<^verbatim>\<open>readings\<close>, a vector of \<^verbatim>\<open>std::deque<char>\<close>. A deque is modelled as a
  list, front first; a \<^verbatim>\<open>std::string\<close> is a \<^typ>\<open>string\<close> (bytes).
  Indexing outside a container and dereferencing a null pointer are error values.
\<close>

datatype ub = OutOfRange | NullPointer

record CharacterBasedSmoothingFilter =
  word_length :: nat
  window_size :: nat
  readings :: "char list list"

text \<open>
  The constructor: \<^verbatim>\<open>readings(word_length_, std::deque<char>(window_size_))\<close>.
  \<^verbatim>\<open>std::deque<char>(n)\<close> holds \<^verbatim>\<open>n\<close> value-initialised characters, that is NUL.
\<close>

definition CharacterBasedSmoothingFilter_new :: "nat \<Rightarrow> nat \<Rightarrow> CharacterBasedSmoothingFilter" where
  "CharacterBasedSmoothingFilter_new wl ws =
     \<lparr>word_length = wl, window_size = ws,
      readings = replicate wl (replicate ws (CHR 0x00))\<rparr>"

text \<open>
  \<^verbatim>\<open>std::max_element(first, last, comp)\<close>: the end iterator on an empty range;
  otherwise \<^verbatim>\<open>largest\<close> starts at the first element and moves to a later element
  \<^verbatim>\<open>first\<close> only when \<^verbatim>\<open>comp(*largest, *first)\<close>. The result is an index;
  \<open>None\<close> is the end iterator.
\<close>

definition max_element :: "('a \<Rightarrow> 'a \<Rightarrow> bool) \<Rightarrow> 'a list \<Rightarrow> nat option" where
  "max_element cmp xs =
     (if xs = [] then None
      else Some (foldl (\<lambda>largest first. if cmp (xs ! largest) (xs ! first) then first else largest)
                   0 [1 ..< length xs]))"

text \<open>
  The lambda of \<^verbatim>\<open>add_reading\<close> compares two characters by their number of
  occurrences in the window (\<^verbatim>\<open>std::count\<close>); the result of \<^verbatim>\<open>max_element\<close> is
  dereferenced without a check. The window is a \<^verbatim>\<open>std::string\<close>: its \<^verbatim>\<open>end()\<close>
  addresses the terminating NUL that the string keeps after its last character, so for
  the empty window the dereference reads NUL.
\<close>

definition most_common_char :: "char list \<Rightarrow> char" where
  "most_common_char window =
     (case max_element (\<lambda>a b. count_list window a < count_list window b) window of
        None \<Rightarrow> CHR 0x00
      | Some k \<Rightarrow> window ! k)"

text \<open>
  The first lines of \<^verbatim>\<open>add_reading\<close>: trim or pad the word to \<^verbatim>\<open>word_length\<close>.
  The \<^verbatim>\<open>size_t\<close> difference is computed only when the word is shorter, so it does not
  wrap.
\<close>

definition normalize_word :: "nat \<Rightarrow> string \<Rightarrow> string" where
  "normalize_word wl inWord =
     (let word = inWord in
      if length word \<noteq> wl then
        (let word = (if length word > wl then take wl word else word);
             word = (if length word < wl
                     then word @ replicate (wl - length word) (CHR '' '') else word)
         in word)
      else word)"

text \<open>
  One pass of the \<^verbatim>\<open>for\<close> loop body at index \<open>i\<close>: \<^verbatim>\<open>push_back\<close>, one
  \<^verbatim>\<open>pop_front\<close> when the deque has grown past \<^verbatim>\<open>window_size\<close>, then the vote.
  The state is the vector of deques and \<^verbatim>\<open>smoothed_word\<close>.
\<close>

definition push_reading :: "nat \<Rightarrow> char list \<Rightarrow> char \<Rightarrow> char list" where
  "push_reading ws dq c = (let dq = dq @ [c] in if length dq > ws then tl dq else dq)"

definition add_reading_body ::
  "nat \<Rightarrow> string \<Rightarrow> nat \<Rightarrow> char list list \<times> string \<Rightarrow> ub + char list list \<times> string" where
  "add_reading_body ws word i st =
     (case st of (rs, smoothed_word) \<Rightarrow>
        if i < length rs \<and> i < length word then
          (let window = push_reading ws (rs ! i) (word ! i);
               most_common = most_common_char window
           in Inr (rs[i := window], smoothed_word @ [most_common]))
        else Inl OutOfRange)"

primrec add_reading_loop ::
  "nat \<Rightarrow> string \<Rightarrow> nat list \<Rightarrow> char list list \<times> string \<Rightarrow> ub + char list list \<times> string" where
  "add_reading_loop ws word [] st = Inr st"
| "add_reading_loop ws word (i # is) st =
     (case add_reading_body ws word i st of
        Inl e \<Rightarrow> Inl e
      | Inr st' \<Rightarrow> add_reading_loop ws word is st')"

definition add_reading ::
  "CharacterBasedSmoothingFilter \<Rightarrow> string \<Rightarrow> ub + CharacterBasedSmoothingFilter \<times> string" where
  "add_reading f inWord =
     (let word = normalize_word (word_length f) inWord in
      case add_reading_loop (window_size f) word [0 ..< word_length f] (readings f, []) of
        Inl e \<Rightarrow> Inl e
      | Inr (rs, smoothed_word) \<Rightarrow> Inr (f\<lparr>readings := rs\<rparr>, smoothed_word))"

text \<open>
  A sequence of calls on the same object; the outputs are collected in call order.
\<close>

primrec add_readings ::
  "CharacterBasedSmoothingFilter \<Rightarrow> string list \<Rightarrow> ub + CharacterBasedSmoothingFilter \<times> string list" where
  "add_readings f [] = Inr (f, [])"
| "add_readings f (w # ws) =
     (case add_reading f w of
        Inl e \<Rightarrow> Inl e
      | Inr (f', out) \<Rightarrow>
          (case add_readings f' ws of
             Inl e \<Rightarrow> Inl e
           | Inr (f'', outs) \<Rightarrow> Inr (f'', out # outs)))"

section \<open>Recognition and region extraction\<close>

text \<open>
  \<^verbatim>\<open>cv::Mat\<close> as far as the code looks at it: the dimensions and the pixel data.
  \<^verbatim>\<open>empty()\<close> is true for a matrix without elements; \<^verbatim>\<open>size()\<close> compares
  width and height.
\<close>

record Mat =
  cols :: int
  rows :: int
  data :: "nat list"

definition Mat_empty :: "Mat \<Rightarrow> bool" where
  "Mat_empty m \<longleftrightarrow> cols m * rows m = 0 \<or> data m = []"

definition Mat_size :: "Mat \<Rightarrow> int \<times> int" where
  "Mat_size m = (cols m, rows m)"

definition empty_Mat :: Mat where
  "empty_Mat = \<lparr>cols = 0, rows = 0, data = []\<rparr>"

text \<open>
  The fields of \<^verbatim>\<open>filter_data\<close> that the functions of this file read or write.
  The structure is declared in a header outside \<^verbatim>\<open>src/\<close>; the thresholds and
  the timer are integers (they are compared with \<^verbatim>\<open>int\<close> values, cast to
  \<^verbatim>\<open>float\<close> and \<^verbatim>\<open>int64_t\<close>, and logged with \<^verbatim>\<open>%d\<close>).
  \<^verbatim>\<open>smoothing_filter\<close> is a \<^verbatim>\<open>std::unique_ptr\<close>: \<open>None\<close> is the null pointer.
\<close>

record filter_data =
  tesseract_thread_run :: bool
  update_timer_ms :: int
  update_on_change :: bool
  update_on_change_threshold :: int
  lastInputBGRA :: Mat
  conf_threshold :: int
  enable_smoothing :: bool
  smoothing_filter :: "CharacterBasedSmoothingFilter option"
  pageSegmentationMode :: int
  output_image_source_name :: string
  output_source_name :: string

text \<open>
  What the recognition engine answers for the image it was given: the text of
  \<^verbatim>\<open>GetUTF8Text()\<close> (\<open>None\<close> for \<^verbatim>\<open>nullptr\<close>), \<^verbatim>\<open>MeanTextConf()\<close>, and the
  positions a \<^verbatim>\<open>ResultIterator\<close> visits at the chosen level (\<open>None\<close> when
  \<^verbatim>\<open>GetIterator()\<close> returns \<^verbatim>\<open>nullptr\<close>). A \<^verbatim>\<open>float\<close> confidence is a real
  number; the cast \<^verbatim>\<open>(int)\<close> truncates towards zero.
\<close>

record iterator_position =
  Empty :: bool
  Confidence :: real
  bb_left :: int
  bb_top :: int
  bb_right :: int
  bb_bottom :: int
  UTF8Text :: string

record tesseract_answer =
  GetUTF8Text :: "string option"
  MeanTextConf :: int
  GetIterator :: "iterator_position list option"

datatype PageIteratorLevel = RIL_BLOCK | RIL_PARA | RIL_TEXTLINE | RIL_WORD | RIL_SYMBOL

text \<open>The value of \<^verbatim>\<open>tesseract::PSM_SINGLE_CHAR\<close> in the engine's \<^verbatim>\<open>PageSegMode\<close>.\<close>

definition PSM_SINGLE_CHAR :: int where
  "PSM_SINGLE_CHAR = 10"

record Rect =
  rect_x :: int
  rect_y :: int
  rect_width :: int
  rect_height :: int

record OCRBox =
  box :: Rect
  box_text :: string

definition c_trunc :: "real \<Rightarrow> int" where
  "c_trunc v = (if 0 \<le> v then \<lfloor>v\<rfloor> else \<lceil>v\<rceil>)"

text \<open>
  A value of type \<^verbatim>\<open>int\<close> has 32 bits. The model holds it as an integer and reduces
  the result of every subtraction and multiplication of \<^verbatim>\<open>int\<close> values to the range
  from \<open>-2^31\<close> to \<open>2^31 - 1\<close>, as the two's-complement instructions of the compiled
  code do (C++ leaves the overflow of a signed operation undefined).
\<close>

definition int32 :: "int \<Rightarrow> int" where
  "int32 v = (v + 2 ^ 31) mod 2 ^ 32 - 2 ^ 31"

text \<open>\<^verbatim>\<open>strip\<close>: \<open>None\<close> is \<^verbatim>\<open>std::string::npos\<close>.\<close>

definition find_first_not_of :: "string \<Rightarrow> string \<Rightarrow> nat option" where
  "find_first_not_of str chars =
     (case filter (\<lambda>i. str ! i \<notin> set chars) [0 ..< length str] of
        [] \<Rightarrow> None | i # _ \<Rightarrow> Some i)"

definition find_last_not_of :: "string \<Rightarrow> string \<Rightarrow> nat option" where
  "find_last_not_of str chars =
     (case rev (filter (\<lambda>i. str ! i \<notin> set chars) [0 ..< length str]) of
        [] \<Rightarrow> None | i # _ \<Rightarrow> Some i)"

definition whitespace :: string where
  "whitespace = [CHR '' '', CHR 0x09, CHR 0x0A, CHR 0x0D]"

definition strip :: "string \<Rightarrow> string" where
  "strip str =
     (case (find_first_not_of str whitespace, find_last_not_of str whitespace) of
        (Some start, Some end') \<Rightarrow> take (end' - start + 1) (drop start str)
      | _ \<Rightarrow> [])"

text \<open>
  \<^verbatim>\<open>run_tesseract_ocr\<close>. The smoothing filter is the only part of \<^verbatim>\<open>tf\<close> that
  the function changes.
\<close>

definition run_tesseract_ocr :: "filter_data \<Rightarrow> tesseract_answer \<Rightarrow> ub + filter_data \<times> string" where
  "run_tesseract_ocr tf answer =
     (case GetUTF8Text answer of
        None \<Rightarrow> Inr (tf, [])
      | Some recognitionResult \<Rightarrow>
          (let confidence = MeanTextConf answer in
           if confidence < conf_threshold tf then Inr (tf, [])
           else
             (let recognitionResult = strip recognitionResult in
              if enable_smoothing tf then
                (case smoothing_filter tf of
                   None \<Rightarrow> Inl NullPointer
                 | Some flt \<Rightarrow>
                     (case add_reading flt recognitionResult of
                        Inl e \<Rightarrow> Inl e
                      | Inr (flt', smoothed) \<Rightarrow> Inr (tf\<lparr>smoothing_filter := Some flt'\<rparr>, smoothed)))
              else Inr (tf, recognitionResult))))"

text \<open>
  \<^verbatim>\<open>extract_text_detection_boxes\<close>. The \<^verbatim>\<open>do ... while (ri->Next(level))\<close> loop
  runs its body once for each position of the iterator; \<^verbatim>\<open>continue\<close> goes to the next
  position. The width, the height and the area of the box and the area of the image are
  32-bit results (\<open>int32\<close>). The division by two is C++ integer division, which rounds
  towards zero.
\<close>

fun extract_boxes_loop ::
  "filter_data \<Rightarrow> PageIteratorLevel \<Rightarrow> int \<times> int \<Rightarrow> iterator_position list \<Rightarrow> OCRBox list \<Rightarrow> OCRBox list" where
  "extract_boxes_loop tf level imageSize [] boxes = boxes"
| "extract_boxes_loop tf level imageSize (ri # next) boxes =
     (if Empty ri then extract_boxes_loop tf level imageSize next boxes
      else if level = RIL_WORD \<and> c_trunc (Confidence ri) < conf_threshold tf
      then extract_boxes_loop tf level imageSize next boxes
      else
        (let b = \<lparr>box = \<lparr>rect_x = bb_left ri, rect_y = bb_top ri,
                          rect_width = int32 (bb_right ri - bb_left ri),
                          rect_height = int32 (bb_bottom ri - bb_top ri)\<rparr>,
                  box_text = UTF8Text ri\<rparr>;
             area = int32 (int32 (bb_right ri - bb_left ri) * int32 (bb_bottom ri - bb_top ri))
         in if area < 100 \<or> area > int32 (fst imageSize * snd imageSize) sdiv 2
            then extract_boxes_loop tf level imageSize next boxes
            else extract_boxes_loop tf level imageSize next (boxes @ [b])))"

definition detection_level :: "filter_data \<Rightarrow> PageIteratorLevel" where
  "detection_level tf =
     (if pageSegmentationMode tf = PSM_SINGLE_CHAR then RIL_SYMBOL else RIL_WORD)"

definition extract_text_detection_boxes ::
  "filter_data \<Rightarrow> tesseract_answer \<Rightarrow> int \<times> int \<Rightarrow> OCRBox list" where
  "extract_text_detection_boxes tf answer imageSize =
     (case GetIterator answer of
        None \<Rightarrow> []
      | Some ri \<Rightarrow>
          (let level = detection_level tf
           in extract_boxes_loop tf level imageSize ri []))"

section \<open>The worker loop\<close>

text \<open>
  Single-precision arithmetic, as \<^verbatim>\<open>change_threshold_from_image_area\<close> uses it
  on targets that evaluate \<^verbatim>\<open>float\<close> expressions in single precision (SSE2, AArch64):
  every operation on \<^verbatim>\<open>float\<close> values returns the exact result rounded to the nearest
  binary32 number, ties to the even significand. A binary32 number is a multiple of
  \<open>2^e\<close> with a significand below \<open>2^24\<close>, for \<open>e\<close> from \<open>-149\<close> to \<open>104\<close>;
  \<open>f32_exponent\<close> finds the \<open>e\<close> of the binade of its argument. Values of
  magnitude \<open>2^128\<close> and above (infinities) do not arise from 32-bit integers.
\<close>

function f32_exponent :: "real \<Rightarrow> int \<Rightarrow> int" where
  "f32_exponent v e = (if 104 \<le> e \<or> v < 2 powi (e + 24) then e else f32_exponent v (e + 1))"
  by pat_completeness auto
termination
  by (relation "measure (\<lambda>(v, e). nat (104 - e))") auto

declare f32_exponent.simps [simp del]

definition round_to_even :: "real \<Rightarrow> int" where
  "round_to_even v =
     (let n = \<lfloor>v\<rfloor>; d = v - of_int n
      in if d < 1 / 2 then n else if 1 / 2 < d then n + 1 else if even n then n else n + 1)"

definition f32 :: "real \<Rightarrow> real" where
  "f32 v = (let q = 2 powi (f32_exponent \<bar>v\<bar> (- 149)) in of_int (round_to_even (v / q)) * q)"

text \<open>
  \<^verbatim>\<open>(int)((float)tf->update_on_change_threshold / 100.0f * (float)(imageBGRA.cols * imageBGRA.rows))\<close>:
  the 32-bit product of the dimensions, two conversions, a division, a multiplication,
  each rounded, and the truncating cast (defined as long as the value fits \<^verbatim>\<open>int\<close>, as
  it does for percentages up to 100).
\<close>

definition change_threshold_from_image_area :: "int \<Rightarrow> int \<Rightarrow> int \<Rightarrow> int" where
  "change_threshold_from_image_area threshold image_cols image_rows =
     c_trunc (f32 (f32 (f32 (of_int threshold) / 100)
                   * f32 (of_int (int32 (image_cols * image_rows)))))"

text \<open>
  What one pass of the \<^verbatim>\<open>while (true)\<close> loop of \<^verbatim>\<open>tesseract_thread\<close> gets from
  outside: the two clock readings, whether \<^verbatim>\<open>try_to_lock\<close> got the frame lock, the
  frame in the shared buffer, the result of
  \<^verbatim>\<open>countNonZero\<close> on the grey absolute difference with \<^verbatim>\<open>lastInputBGRA\<close>, the engine's
  answer for the preprocessed image, and the library call that throws (if any) once the
  pass reaches it.
\<close>

datatype throwing_call = NoThrow | ThrowInAbsdiff | ThrowInPreprocessing | ThrowInRendering | ThrowInTemplate

record iteration_inputs =
  request_start_time_ns :: "64 word"
  request_end_time_ns :: "64 word"
  owns_lock :: bool
  inputBGRA :: Mat
  countNonZero :: int
  answer :: tesseract_answer
  throws :: throwing_call

text \<open>
  What a pass hands to the sinks: the recognised text that goes through the template to
  \<^verbatim>\<open>setTextCallback\<close>, and the boxes drawn into the image for
  \<^verbatim>\<open>setTextDetectionMaskCallback\<close>.
\<close>

record iteration_outputs =
  TextCallback :: "string option"
  TextDetectionMaskCallback :: "OCRBox list option"

definition no_outputs :: iteration_outputs where
  "no_outputs = \<lparr>TextCallback = None, TextDetectionMaskCallback = None\<rparr>"

text \<open>How the \<^verbatim>\<open>try\<close> block is left, and how the pass ends.\<close>

datatype block_exit = ContinueStatement | EndOfBlock | ExceptionCaught

datatype pass_end = Break | NextIterationWithoutSleep | SleepStep "int option"

text \<open>
  The statements of the \<^verbatim>\<open>try\<close> block after the assignment to
  \<^verbatim>\<open>lastInputBGRA\<close>: preprocessing, recognition, the detection image and the text.
  \<open>valid\<close> is \<^verbatim>\<open>is_valid_output_source_name\<close>, a function of another file.
\<close>

definition process_frame ::
  "(string \<Rightarrow> bool) \<Rightarrow> filter_data \<Rightarrow> iteration_inputs \<Rightarrow> Mat
     \<Rightarrow> ub + filter_data \<times> iteration_outputs \<times> block_exit" where
  "process_frame valid tf inp imageBGRA =
     (if throws inp = ThrowInPreprocessing then Inr (tf, no_outputs, ExceptionCaught)
      else
        (case run_tesseract_ocr tf (answer inp) of
           Inl e \<Rightarrow> Inl e
         | Inr (tf, ocr_result) \<Rightarrow>
             (if valid (output_image_source_name tf) \<and> throws inp = ThrowInRendering
              then Inr (tf, no_outputs, ExceptionCaught)
              else
                (let out = no_outputs\<lparr>TextDetectionMaskCallback :=
                             (if valid (output_image_source_name tf)
                              then Some (extract_text_detection_boxes tf (answer inp) (Mat_size imageBGRA))
                              else None)\<rparr>
                 in if ocr_result \<noteq> [] \<and> valid (output_source_name tf)
                    then (if throws inp = ThrowInTemplate then Inr (tf, out, ExceptionCaught)
                          else Inr (tf, out\<lparr>TextCallback := Some ocr_result\<rparr>, EndOfBlock))
                    else Inr (tf, out, EndOfBlock)))))"

text \<open>The whole \<^verbatim>\<open>try\<close> block: the change check, the cache update, the rest.\<close>

definition skip_processing :: "filter_data \<Rightarrow> iteration_inputs \<Rightarrow> Mat \<Rightarrow> bool" where
  "skip_processing tf inp imageBGRA \<longleftrightarrow>
     update_on_change tf \<and> Mat_size imageBGRA = Mat_size (lastInputBGRA tf)
     \<and> countNonZero inp
         < change_threshold_from_image_area (update_on_change_threshold tf) (cols imageBGRA) (rows imageBGRA)"

definition try_block ::
  "(string \<Rightarrow> bool) \<Rightarrow> filter_data \<Rightarrow> iteration_inputs \<Rightarrow> Mat
     \<Rightarrow> ub + filter_data \<times> iteration_outputs \<times> block_exit" where
  "try_block valid tf inp imageBGRA =
     (if update_on_change tf \<and> Mat_size imageBGRA = Mat_size (lastInputBGRA tf)
         \<and> throws inp = ThrowInAbsdiff
      then Inr (tf, no_outputs, ExceptionCaught)
      else if skip_processing tf inp imageBGRA
      then Inr (tf, no_outputs, ContinueStatement)
      else process_frame valid (tf\<lparr>lastInputBGRA := imageBGRA\<rparr>) inp imageBGRA)"

text \<open>
  The end of the loop body: \<^verbatim>\<open>request_time_ns\<close> is an unsigned 64-bit difference,
  and \<^verbatim>\<open>wait_for\<close> is called only for a positive \<^verbatim>\<open>sleep_time_ms\<close>
  (\<open>SleepStep None\<close> when it is not called).
\<close>

definition sleep_time_ms :: "filter_data \<Rightarrow> iteration_inputs \<Rightarrow> int" where
  "sleep_time_ms tf inp =
     (let request_time_ns = request_end_time_ns inp - request_start_time_ns inp
      in update_timer_ms tf - int (unat request_time_ns div 1000000))"

definition sleep_step :: "filter_data \<Rightarrow> iteration_inputs \<Rightarrow> pass_end" where
  "sleep_step tf inp =
     (if sleep_time_ms tf inp > 0 then SleepStep (Some (sleep_time_ms tf inp)) else SleepStep None)"

text \<open>One pass of the loop, from the test of the run flag to the sleep.\<close>

definition tesseract_thread_iteration ::
  "(string \<Rightarrow> bool) \<Rightarrow> filter_data \<Rightarrow> iteration_inputs
     \<Rightarrow> ub + filter_data \<times> iteration_outputs \<times> pass_end" where
  "tesseract_thread_iteration valid tf inp =
     (if \<not> tesseract_thread_run tf then Inr (tf, no_outputs, Break)
      else
        (let imageBGRA = (if owns_lock inp then inputBGRA inp else empty_Mat)
         in if \<not> Mat_empty imageBGRA then
              (case try_block valid tf inp imageBGRA of
                 Inl e \<Rightarrow> Inl e
               | Inr (tf', out, ContinueStatement) \<Rightarrow> Inr (tf', out, NextIterationWithoutSleep)
               | Inr (tf', out, _) \<Rightarrow> Inr (tf', out, sleep_step tf' inp))
            else Inr (tf, no_outputs, sleep_step tf inp)))"

text \<open>
  The box and the test of the loop body of \<^verbatim>\<open>extract_text_detection_boxes\<close>, named
  for the statements about it: \<open>OCRBox_of\<close> is the box of the code, \<open>computed_area\<close> its
  variable \<^verbatim>\<open>area\<close>, and \<open>region_kept\<close> holds when no \<^verbatim>\<open>continue\<close> is taken.
  \<open>bounding_area\<close> is the area of the bounding rectangle as a number, without the 32-bit
  reduction; \<open>fits_int32\<close> tells that a number is a value of type \<^verbatim>\<open>int\<close>, and
  \<open>region_fits\<close> that the width, the height and the area of a region are.
\<close>

definition bounding_area :: "iterator_position \<Rightarrow> int" where
  "bounding_area ri = (bb_right ri - bb_left ri) * (bb_bottom ri - bb_top ri)"

definition computed_area :: "iterator_position \<Rightarrow> int" where
  "computed_area ri = int32 (int32 (bb_right ri - bb_left ri) * int32 (bb_bottom ri - bb_top ri))"

definition OCRBox_of :: "iterator_position \<Rightarrow> OCRBox" where
  "OCRBox_of ri =
     \<lparr>box = \<lparr>rect_x = bb_left ri, rect_y = bb_top ri,
              rect_width = int32 (bb_right ri - bb_left ri),
              rect_height = int32 (bb_bottom ri - bb_top ri)\<rparr>,
      box_text = UTF8Text ri\<rparr>"

definition region_kept :: "filter_data \<Rightarrow> PageIteratorLevel \<Rightarrow> int \<times> int \<Rightarrow> iterator_position \<Rightarrow> bool" where
  "region_kept tf level imageSize ri \<longleftrightarrow>
     \<not> Empty ri
     \<and> (level = RIL_WORD \<longrightarrow> conf_threshold tf \<le> c_trunc (Confidence ri))
     \<and> 100 \<le> computed_area ri
     \<and> computed_area ri \<le> int32 (fst imageSize * snd imageSize) sdiv 2"

definition fits_int32 :: "int \<Rightarrow> bool" where
  "fits_int32 v \<longleftrightarrow> - (2 ^ 31) \<le> v \<and> v < 2 ^ 31"

definition region_fits :: "iterator_position \<Rightarrow> bool" where
  "region_fits ri \<longleftrightarrow>
     fits_int32 (bb_right ri - bb_left ri) \<and> fits_int32 (bb_bottom ri - bb_top ri)
     \<and> fits_int32 (bounding_area ri)"

text \<open>
  A frame of 100 by 100 pixels with one word of area 400 recognised with confidence 80,
  a threshold of 60, change detection at 15 percent and a period of 100 ms, of which a
  pass takes 5 ms.
\<close>

definition still_frame :: Mat where
  "still_frame = \<lparr>cols = 100, rows = 100, data = replicate 10000 0\<rparr>"

definition changed_frame :: Mat where
  "changed_frame = \<lparr>cols = 100, rows = 100, data = replicate 10000 255\<rparr>"

definition sample_answer :: tesseract_answer where
  "sample_answer =
     \<lparr>GetUTF8Text = Some '' 12:34 '', MeanTextConf = 80,
      GetIterator = Some [\<lparr>Empty = False, Confidence = 80, bb_left = 10, bb_top = 10,
                            bb_right = 30, bb_bottom = 30, UTF8Text = ''12:34''\<rparr>]\<rparr>"

definition sample_tf :: filter_data where
  "sample_tf =
     \<lparr>tesseract_thread_run = True, update_timer_ms = 100, update_on_change = True,
      update_on_change_threshold = 15, lastInputBGRA = still_frame, conf_threshold = 60,
      enable_smoothing = False, smoothing_filter = None, pageSegmentationMode = 3,
      output_image_source_name = ''mask'', output_source_name = ''text''\<rparr>"

definition sample_inp :: iteration_inputs where
  "sample_inp =
     \<lparr>request_start_time_ns = 1000000000, request_end_time_ns = 1005000000,
      owns_lock = True, inputBGRA = still_frame, countNonZero = 0,
      answer = sample_answer, throws = NoThrow\<rparr>"

text \<open>The same settings with smoothing enabled, and a pass with a mean confidence of 40.\<close>

definition sample_tf_smoothing :: filter_data where
  "sample_tf_smoothing =
     sample_tf\<lparr>enable_smoothing := True,
               smoothing_filter := Some (CharacterBasedSmoothingFilter_new 5 3)\<rparr>"

definition sample_inp_low_confidence :: iteration_inputs where
  "sample_inp_low_confidence = sample_inp\<lparr>answer := sample_answer\<lparr>MeanTextConf := 40\<rparr>\<rparr>"

text \<open>
  The invariant of the class: \<^verbatim>\<open>readings\<close> has one deque for each position, and
  every deque holds \<^verbatim>\<open>window_size\<close> characters.
\<close>

definition filter_inv :: "nat \<Rightarrow> nat \<Rightarrow> CharacterBasedSmoothingFilter \<Rightarrow> bool" where
  "filter_inv wl ws f \<longleftrightarrow>
     word_length f = wl \<and> window_size f = ws \<and> length (readings f) = wl
     \<and> list_all (\<lambda>dq. length dq = ws) (readings f)"

section \<open>Properties of the smoothing filter\<close>

subsection \<open>The vote\<close>

lemma max_element_loop_inv:
  fixes f :: "'a \<Rightarrow> nat" and xs :: "'a list"
  assumes "0 < n" "n \<le> length xs"
  defines "g \<equiv> \<lambda>m. foldl (\<lambda>largest first. if f (xs ! largest) < f (xs ! first) then first else largest) 0 [1 ..< m]"
  shows "g n < n \<and> (\<forall>j<n. f (xs ! j) \<le> f (xs ! g n)) \<and> (\<forall>j<g n. f (xs ! j) < f (xs ! g n))"
  using assms(1,2)
proof (induction n)
  case 0
  then show ?case by simp
next
  case (Suc n)
  show ?case
  proof (cases "n = 0")
    case True
    then show ?thesis by (simp add: g_def)
  next
    case False
    with Suc have IH: "g n < n" "\<forall>j<n. f (xs ! j) \<le> f (xs ! g n)" "\<forall>j<g n. f (xs ! j) < f (xs ! g n)"
      by auto
    from False have step: "g (Suc n) = (if f (xs ! g n) < f (xs ! n) then n else g n)"
      by (simp add: g_def)
    show ?thesis
    proof (cases "f (xs ! g n) < f (xs ! n)")
      case True
      with step have "g (Suc n) = n" by simp
      moreover have "\<forall>j<n. f (xs ! j) < f (xs ! n)"
        using IH(2) True by (meson le_less_trans)
      ultimately show ?thesis
        by (auto simp: less_Suc_eq intro: less_imp_le)
    next
      case False
      with step have "g (Suc n) = g n" by simp
      with IH False show ?thesis
        by (auto simp: less_Suc_eq not_less)
    qed
  qed
qed

lemma max_element_by_measure:
  fixes f :: "'a \<Rightarrow> nat"
  assumes "xs \<noteq> []"
  shows "\<exists>k. max_element (\<lambda>a b. f a < f b) xs = Some k \<and> k < length xs
           \<and> (\<forall>j<length xs. f (xs ! j) \<le> f (xs ! k)) \<and> (\<forall>j<k. f (xs ! j) < f (xs ! k))"
  using assms max_element_loop_inv[of "length xs" xs f]
  by (simp add: max_element_def)

lemma count_list_le_nth:
  assumes "\<forall>j<length xs. count_list xs (xs ! j) \<le> count_list xs c"
  shows "count_list xs d \<le> count_list xs c"
proof (cases "d \<in> set xs")
  case True
  then obtain j where "j < length xs" "xs ! j = d" by (auto simp: in_set_conv_nth)
  with assms show ?thesis by auto
next
  case False
  then show ?thesis by (simp add: count_list_0_iff)
qed

lemma most_common_char_empty: "most_common_char [] = CHR 0x00"
  by (simp add: most_common_char_def max_element_def)

lemma most_common_char_spec:
  assumes "window \<noteq> []"
  shows "\<exists>k<length window. most_common_char window = window ! k
           \<and> (\<forall>d. count_list window d \<le> count_list window (window ! k))
           \<and> (\<forall>j<k. count_list window (window ! j) < count_list window (window ! k))"
proof -
  from max_element_by_measure[OF assms, of "count_list window"]
  obtain k where k: "max_element (\<lambda>a b. count_list window a < count_list window b) window = Some k"
      "k < length window"
      "\<forall>j<length window. count_list window (window ! j) \<le> count_list window (window ! k)"
      "\<forall>j<k. count_list window (window ! j) < count_list window (window ! k)"
    by blast
  from k(3) have "\<forall>d. count_list window d \<le> count_list window (window ! k)"
    using count_list_le_nth by metis
  with k show ?thesis
    by (auto simp: most_common_char_def)
qed

lemma most_common_char_find:
  assumes ne: "window \<noteq> []"
  shows "List.find (\<lambda>a. \<forall>d\<in>set window. count_list window d \<le> count_list window a) window
           = Some (most_common_char window)"
proof -
  define c where "c = most_common_char window"
  from most_common_char_spec[OF ne]
  obtain k where k: "k < length window" "c = window ! k"
      "\<forall>d. count_list window d \<le> count_list window c"
      "\<forall>j<k. count_list window (window ! j) < count_list window c"
    unfolding c_def by auto
  have "\<forall>j<k. \<not> (\<forall>d\<in>set window. count_list window d \<le> count_list window (window ! j))"
  proof (intro allI impI notI)
    fix j assume "j < k" and all: "\<forall>d\<in>set window. count_list window d \<le> count_list window (window ! j)"
    from k(1,2) have "c \<in> set window" by simp
    with all have "count_list window c \<le> count_list window (window ! j)" by blast
    with k(4) \<open>j < k\<close> show False by (simp add: not_less[symmetric])
  qed
  with k show ?thesis
    unfolding find_Some_iff c_def[symmetric] by blast
qed

lemma most_common_char_replicate:
  "0 < n \<Longrightarrow> most_common_char (replicate n c) = c"
  using most_common_char_spec[of "replicate n c"] by auto

lemma push_reading_nonempty: "0 < ws \<Longrightarrow> push_reading ws dq c \<noteq> []"
  by (cases dq) (auto simp: push_reading_def Let_def)

lemma push_reading_full:
  "0 < ws \<Longrightarrow> length dq = ws \<Longrightarrow> push_reading ws dq c = tl dq @ [c]"
  by (cases dq) (auto simp: push_reading_def Let_def)

lemma push_reading_length:
  "length dq = ws \<Longrightarrow> length (push_reading ws dq c) = ws"
  by (cases dq) (auto simp: push_reading_def Let_def)

lemma add_reading_loop_append:
  "add_reading_loop ws word (is @ js) st =
     (case add_reading_loop ws word is st of
        Inl e \<Rightarrow> Inl e
      | Inr st' \<Rightarrow> add_reading_loop ws word js st')"
  by (induction "is" arbitrary: st) (auto split: sum.splits)

lemma add_reading_loop_result:
  assumes "add_reading_loop ws word [0 ..< n] (rs, []) = Inr (rs', out)"
  shows "n \<le> length rs \<and> n \<le> length word \<and> length out = n \<and> length rs' = length rs
         \<and> (\<forall>i<n. rs' ! i = push_reading ws (rs ! i) (word ! i)
                     \<and> out ! i = most_common_char (rs' ! i))
         \<and> (\<forall>i. n \<le> i \<longrightarrow> rs' ! i = rs ! i)"
  using assms
proof (induction n arbitrary: rs' out)
  case 0
  then show ?case by simp
next
  case (Suc n)
  from Suc.prems obtain rs1 out1 where
    prev: "add_reading_loop ws word [0 ..< n] (rs, []) = Inr (rs1, out1)" and
    last: "add_reading_body ws word n (rs1, out1) = Inr (rs', out)"
    by (auto simp: add_reading_loop_append split: sum.splits)
  note IH = Suc.IH[OF prev]
  from last have n: "n < length rs1" "n < length word"
    and rs': "rs' = rs1[n := push_reading ws (rs1 ! n) (word ! n)]"
    and out: "last out = most_common_char (push_reading ws (rs1 ! n) (word ! n))" "out = out1 @ [last out]"
    by (auto simp: add_reading_body_def Let_def split: if_splits)
  from IH have rs1n: "rs1 ! n = rs ! n" by simp
  show ?case
  proof (intro conjI allI impI)
    show "Suc n \<le> length rs" using IH n by simp
    show "Suc n \<le> length word" using n by simp
    show "length out = Suc n" using out(2) IH by (metis length_append_singleton)
    show "length rs' = length rs" using rs' IH by simp
  next
    fix i assume "i < Suc n"
    then consider "i < n" | "i = n" by linarith
    then show "rs' ! i = push_reading ws (rs ! i) (word ! i)"
      using IH rs' n rs1n by cases auto
    from \<open>i < Suc n\<close> consider "i < n" | "i = n" by linarith
    then show "out ! i = most_common_char (rs' ! i)"
    proof cases
      case 1
      with IH have "out1 ! i = most_common_char (rs1 ! i)" "length out1 = n" by auto
      with 1 rs' out(2) show ?thesis
        by (metis nth_append nth_list_update_neq less_irrefl)
    next
      case 2
      with IH have "length out1 = n" by simp
      with 2 out rs' n show ?thesis
        by (metis nth_append_length nth_list_update_eq)
    qed
  next
    fix i assume "Suc n \<le> i"
    with IH rs' show "rs' ! i = rs ! i" by simp
  qed
qed

lemma add_reading_loop_total:
  assumes "n \<le> length rs" "n \<le> length word"
  shows "\<exists>rs' out. add_reading_loop ws word [0 ..< n] (rs, []) = Inr (rs', out)"
  using assms
proof (induction n)
  case 0
  then show ?case by simp
next
  case (Suc n)
  then obtain rs1 out1 where prev: "add_reading_loop ws word [0 ..< n] (rs, []) = Inr (rs1, out1)"
    by auto
  from add_reading_loop_result[OF prev] Suc.prems have "n < length rs1" by simp
  then have "\<exists>st. add_reading_body ws word n (rs1, out1) = Inr st"
    using Suc.prems by (simp add: add_reading_body_def Let_def)
  with prev show ?case
    by (auto simp: add_reading_loop_append)
qed

lemma normalize_word_eq:
  "normalize_word wl w = (if wl < length w then take wl w else w @ replicate (wl - length w) (CHR '' ''))"
  by (auto simp: normalize_word_def Let_def)

lemma length_normalize_word: "length (normalize_word wl w) = wl"
  by (auto simp: normalize_word_eq)

lemma normalize_word_idem: "normalize_word wl (normalize_word wl w) = normalize_word wl w"
  using length_normalize_word[of wl w] by (simp add: normalize_word_def)

lemma add_reading_result:
  assumes "add_reading f w = Inr (f', out)"
  shows "word_length f' = word_length f \<and> window_size f' = window_size f
         \<and> word_length f \<le> length (readings f)
         \<and> length (readings f') = length (readings f) \<and> length out = word_length f
         \<and> (\<forall>i<word_length f.
               readings f' ! i = push_reading (window_size f) (readings f ! i) (normalize_word (word_length f) w ! i)
               \<and> out ! i = most_common_char (readings f' ! i))"
proof -
  from assms obtain rs where
    loop: "add_reading_loop (window_size f) (normalize_word (word_length f) w) [0 ..< word_length f] (readings f, []) = Inr (rs, out)"
    and f': "f' = f\<lparr>readings := rs\<rparr>"
    by (auto simp: add_reading_def Let_def split: sum.splits)
  from add_reading_loop_result[OF loop] f' show ?thesis by auto
qed

lemma add_reading_total:
  assumes "word_length f \<le> length (readings f)"
  shows "\<exists>f' out. add_reading f w = Inr (f', out)"
proof -
  obtain rs out where "add_reading_loop (window_size f) (normalize_word (word_length f) w) [0 ..< word_length f] (readings f, []) = Inr (rs, out)"
    using add_reading_loop_total[OF assms, of "normalize_word (word_length f) w" "window_size f"]
    by (auto simp: length_normalize_word)
  then show ?thesis by (simp add: add_reading_def)
qed

lemma filter_inv_new: "filter_inv wl ws (CharacterBasedSmoothingFilter_new wl ws)"
  by (simp add: filter_inv_def CharacterBasedSmoothingFilter_new_def list_all_iff)

lemma filter_inv_add_reading:
  assumes "filter_inv wl ws f" "add_reading f w = Inr (f', out)"
  shows "filter_inv wl ws f'"
proof -
  note r = add_reading_result[OF assms(2)]
  from assms(1) have inv: "word_length f = wl" "window_size f = ws" "length (readings f) = wl"
    "\<forall>i<wl. length (readings f ! i) = ws"
    by (auto simp: filter_inv_def list_all_length)
  have "\<forall>i<wl. length (readings f' ! i) = ws"
    using r inv by (simp add: push_reading_length)
  with r inv show ?thesis
    by (simp add: filter_inv_def list_all_length)
qed

lemma add_readings_snoc:
  "add_readings f (ws @ [w]) =
     (case add_readings f ws of
        Inl e \<Rightarrow> Inl e
      | Inr (f', outs) \<Rightarrow>
          (case add_reading f' w of
             Inl e \<Rightarrow> Inl e
           | Inr (f'', out) \<Rightarrow> Inr (f'', outs @ [out])))"
  by (induction ws arbitrary: f) (auto split: sum.splits)

lemma add_readings_append:
  "add_readings f (ws @ vs) =
     (case add_readings f ws of
        Inl e \<Rightarrow> Inl e
      | Inr (f', outs) \<Rightarrow>
          (case add_readings f' vs of
             Inl e \<Rightarrow> Inl e
           | Inr (f'', outs') \<Rightarrow> Inr (f'', outs @ outs')))"
  by (induction ws arbitrary: f) (auto split: sum.splits)

lemma filter_inv_add_readings:
  "filter_inv wl ws f \<Longrightarrow> add_readings f inWords = Inr (f', outs) \<Longrightarrow> filter_inv wl ws f'"
proof (induction inWords arbitrary: f outs)
  case Nil
  then show ?case by simp
next
  case (Cons w inWords)
  from Cons.prems(2) obtain f1 out outs1 where
    1: "add_reading f w = Inr (f1, out)" and 2: "add_readings f1 inWords = Inr (f', outs1)"
    by (auto split: sum.splits)
  from filter_inv_add_reading[OF Cons.prems(1) 1] 2 show ?case
    by (rule Cons.IH)
qed

lemma add_readings_total:
  assumes "filter_inv wl ws f"
  shows "\<exists>f' outs. add_readings f inWords = Inr (f', outs) \<and> length outs = length inWords"
  using assms
proof (induction inWords arbitrary: f)
  case Nil
  then show ?case by simp
next
  case (Cons w inWords)
  from Cons.prems obtain f1 out where 1: "add_reading f w = Inr (f1, out)"
    using add_reading_total[of f w] by (auto simp: filter_inv_def)
  from filter_inv_add_reading[OF Cons.prems 1] Cons.IH
  obtain f' outs where "add_readings f1 inWords = Inr (f', outs)" "length outs = length inWords"
    by blast
  with 1 show ?case by simp
qed

lemma push_reading_slide:
  assumes "0 < ws" "length dq = ws"
  shows "push_reading ws (drop k dq @ replicate (min k ws) c) c
           = drop (Suc k) dq @ replicate (min (Suc k) ws) c"
proof -
  have "length (drop k dq @ replicate (min k ws) c) = ws"
    using assms by auto
  then have eq: "push_reading ws (drop k dq @ replicate (min k ws) c) c
                   = tl (drop k dq @ replicate (min k ws) c) @ [c]"
    using assms(1) by (rule push_reading_full[rotated])
  show ?thesis
  proof (cases "k < ws")
    case True
    with assms have "drop k dq \<noteq> []" by simp
    then have "tl (drop k dq @ replicate (min k ws) c) = drop (Suc k) dq @ replicate (min k ws) c"
      by (simp add: drop_Suc tl_drop)
    with True eq show ?thesis
      by (simp add: min_def replicate_append_same)
  next
    case False
    with assms have "drop k dq = []" "drop (Suc k) dq = []" "min k ws = ws" "min (Suc k) ws = ws"
      by auto
    with eq assms(1) show ?thesis
      by (cases ws) (simp_all add: replicate_append_same)
  qed
qed

lemma add_readings_same_word:
  assumes "0 < ws" "filter_inv wl ws f"
  shows "\<exists>f' outs. add_readings f (replicate k w) = Inr (f', outs) \<and> length outs = k
           \<and> filter_inv wl ws f'
           \<and> (\<forall>i<wl. readings f' ! i
                  = drop k (readings f ! i) @ replicate (min k ws) (normalize_word wl w ! i))
           \<and> (0 < k \<longrightarrow> length (last outs) = wl
                  \<and> (\<forall>i<wl. last outs ! i = most_common_char (readings f' ! i)))"
proof (induction k)
  case 0
  with assms(2) show ?case by simp
next
  case (Suc k)
  then obtain f1 outs1 where
    1: "add_readings f (replicate k w) = Inr (f1, outs1)" "length outs1 = k" "filter_inv wl ws f1"
       "\<forall>i<wl. readings f1 ! i = drop k (readings f ! i) @ replicate (min k ws) (normalize_word wl w ! i)"
    by blast
  from 1(3) obtain f2 out where 2: "add_reading f1 w = Inr (f2, out)"
    using add_reading_total[of f1 w] by (auto simp: filter_inv_def)
  note r = add_reading_result[OF 2]
  from 1(3) have f1: "word_length f1 = wl" "window_size f1 = ws" by (auto simp: filter_inv_def)
  from assms(2) have len: "\<forall>i<wl. length (readings f ! i) = ws"
    by (auto simp: filter_inv_def list_all_length)
  have win: "\<forall>i<wl. readings f2 ! i
               = drop (Suc k) (readings f ! i) @ replicate (min (Suc k) ws) (normalize_word wl w ! i)"
  proof (intro allI impI)
    fix i assume i: "i < wl"
    with r f1 have "readings f2 ! i = push_reading ws (readings f1 ! i) (normalize_word wl w ! i)"
      by simp
    also have "\<dots> = push_reading ws (drop k (readings f ! i) @ replicate (min k ws) (normalize_word wl w ! i))
                       (normalize_word wl w ! i)"
      using 1(4) i by simp
    also have "\<dots> = drop (Suc k) (readings f ! i) @ replicate (min (Suc k) ws) (normalize_word wl w ! i)"
      using len i assms(1) by (simp only: push_reading_slide)
    finally show "readings f2 ! i
               = drop (Suc k) (readings f ! i) @ replicate (min (Suc k) ws) (normalize_word wl w ! i)" .
  qed
  have "replicate (Suc k) w = replicate k w @ [w]"
    by (simp add: replicate_append_same)
  then have "add_readings f (replicate (Suc k) w) = Inr (f2, outs1 @ [out])"
    using 1(1) 2 by (simp only: add_readings_snoc sum.case prod.case)
  moreover have "filter_inv wl ws f2"
    using filter_inv_add_reading[OF 1(3) 2] .
  moreover have "length (last (outs1 @ [out])) = wl"
    using r f1 by simp
  moreover have "\<forall>i<wl. last (outs1 @ [out]) ! i = most_common_char (readings f2 ! i)"
    using r f1 by auto
  ultimately show ?case
    using win 1(2) by simp
qed

lemma count_list_replicate_eq: "count_list (replicate n x) y = (if x = y then n else 0)"
  by (induction n) auto

lemma most_common_char_two_runs:
  assumes "x \<noteq> y" "0 < a + b"
  shows "most_common_char (replicate a x @ replicate b y) = (if a < b then y else x)"
proof -
  let ?w = "replicate a x @ replicate b y"
  have cx: "count_list ?w x = a" and cy: "count_list ?w y = b"
    using assms(1) by (simp_all add: count_list_append count_list_replicate_eq)
  from assms(2) have ne: "?w \<noteq> []" by auto
  from most_common_char_spec[OF ne] obtain k where
    k: "k < length ?w" "most_common_char ?w = ?w ! k"
       "\<forall>d. count_list ?w d \<le> count_list ?w (?w ! k)"
       "\<forall>j<k. count_list ?w (?w ! j) < count_list ?w (?w ! k)"
    by blast
  show ?thesis
  proof (cases "a < b")
    case True
    have "?w ! k = y"
    proof (rule ccontr)
      assume "?w ! k \<noteq> y"
      with k(1) have "?w ! k = x" by (auto simp: nth_append split: if_splits)
      with k(3)[rule_format, of y] cx cy True show False by simp
    qed
    with k(2) True show ?thesis by simp
  next
    case False
    have "?w ! k = x"
    proof (rule ccontr)
      assume nx: "?w ! k \<noteq> x"
      with k(1) have ky: "?w ! k = y" and "a \<le> k" by (auto simp: nth_append split: if_splits)
      from k(3)[rule_format, of x] ky cx cy False have "a = b" by simp
      with assms(2) have "0 < a" by simp
      with \<open>a \<le> k\<close> have "0 < k" by simp
      from k(4)[rule_format, OF this] \<open>0 < a\<close> ky cx cy \<open>a = b\<close> show False
        by (simp add: nth_append)
    qed
    with k(2) False show ?thesis by simp
  qed
qed

subsection \<open>The claims about the filter\<close>

text \<open>
  Claim C10. A freshly constructed filter holds, at every position, a window of
  \<^verbatim>\<open>window_size\<close> NUL characters; so for a word length of at least 1 and a window size
  of at least 3 the first call of \<^verbatim>\<open>add_reading\<close> returns \<^verbatim>\<open>word_length\<close> NUL
  characters, whatever the input word is.
\<close>
theorem fresh_filter_starts_full_of_nul:
  assumes "1 \<le> wl" "3 \<le> ws"
  shows "readings (CharacterBasedSmoothingFilter_new wl ws) = replicate wl (replicate ws (CHR 0x00))
         \<and> (\<exists>f'. add_reading (CharacterBasedSmoothingFilter_new wl ws) inWord
                    = Inr (f', replicate wl (CHR 0x00)))"
proof -
  let ?f = "CharacterBasedSmoothingFilter_new wl ws"
  have f: "word_length ?f = wl" "window_size ?f = ws" "readings ?f = replicate wl (replicate ws (CHR 0x00))"
    by (simp_all add: CharacterBasedSmoothingFilter_new_def)
  obtain f' out where 1: "add_reading ?f inWord = Inr (f', out)"
    using add_reading_total[of ?f inWord] f by auto
  note r = add_reading_result[OF 1]
  have "out ! i = CHR 0x00" if i: "i < wl" for i
  proof -
    let ?c = "normalize_word wl inWord ! i"
    from r f i have win: "readings f' ! i = push_reading ws (replicate ws (CHR 0x00)) ?c"
      by simp
    have "push_reading ws (replicate ws (CHR 0x00)) ?c = replicate (ws - 1) (CHR 0x00) @ replicate 1 ?c"
      using assms(2) by (cases ws) (simp_all add: push_reading_full)
    moreover have "most_common_char (replicate (ws - 1) (CHR 0x00) @ replicate 1 ?c) = CHR 0x00"
    proof (cases "?c = CHR 0x00")
      case True
      then have "replicate (ws - 1) (CHR 0x00) @ replicate 1 ?c = replicate ws (CHR 0x00)"
        using assms(2) by (cases ws) (simp_all add: replicate_append_same)
      with assms(2) show ?thesis by (simp add: most_common_char_replicate)
    next
      case False
      then have "CHR 0x00 \<noteq> ?c" by simp
      from most_common_char_two_runs[OF this, of "ws - 1" 1] assms(2) show ?thesis by simp
    qed
    ultimately have "most_common_char (readings f' ! i) = CHR 0x00"
      using win by simp
    moreover from r f i have "out ! i = most_common_char (readings f' ! i)"
      by simp
    ultimately show ?thesis by simp
  qed
  moreover from r f have "length out = wl"
    by simp
  ultimately have "out = replicate wl (CHR 0x00)"
    by (intro nth_equalityI) simp_all
  with 1 f show ?thesis by simp
qed

theorem fresh_filter_starts_full_of_nul_witness:
  "(1::nat) \<le> 2 \<and> (3::nat) \<le> 3
   \<and> readings (CharacterBasedSmoothingFilter_new 2 3) = [[CHR 0x00, CHR 0x00, CHR 0x00], [CHR 0x00, CHR 0x00, CHR 0x00]]
   \<and> (\<exists>f'. add_reading (CharacterBasedSmoothingFilter_new 2 3) ''Hi'' = Inr (f', [CHR 0x00, CHR 0x00]))"
  using fresh_filter_starts_full_of_nul[of 2 3 "''Hi''"] by (simp add: numeral_2_eq_2 numeral_3_eq_3)

text \<open>
  Claim C5, for a window size of at least 1. On a fresh filter with window size \<open>ws\<close>
  and word length \<open>wl \<ge> ws\<close>, \<open>wl\<close> calls of \<^verbatim>\<open>add_reading\<close> with the same word of
  length \<open>wl\<close> all return, and the last call returns that word.
\<close>
theorem same_word_converges:
  assumes "0 < ws" "ws \<le> wl" "length word = wl"
  shows "\<exists>f outs. add_readings (CharacterBasedSmoothingFilter_new wl ws) (replicate wl word) = Inr (f, outs)
           \<and> length outs = wl \<and> last outs = word"
proof -
  let ?f = "CharacterBasedSmoothingFilter_new wl ws"
  from assms have wl: "0 < wl" by simp
  have nw: "normalize_word wl word = word"
    using assms(3) by (simp add: normalize_word_def)
  from add_readings_same_word[OF assms(1) filter_inv_new, of wl wl word]
  obtain f outs where
    1: "add_readings ?f (replicate wl word) = Inr (f, outs)" "length outs = wl"
    and win: "\<forall>i<wl. readings f ! i = drop wl (readings ?f ! i) @ replicate (min wl ws) (word ! i)"
    and out: "length (last outs) = wl" "\<forall>i<wl. last outs ! i = most_common_char (readings f ! i)"
    using wl nw by auto
  have "last outs ! i = word ! i" if i: "i < wl" for i
  proof -
    from win i assms(2) have "readings f ! i = replicate ws (word ! i)"
      by (simp add: CharacterBasedSmoothingFilter_new_def min_def)
    with out(2) i assms(1) show ?thesis
      by (auto simp: most_common_char_replicate)
  qed
  with out(1) assms(3) have "last outs = word"
    by (intro nth_equalityI) simp_all
  with 1 show ?thesis by blast
qed

theorem same_word_converges_witness:
  "(0::nat) < 2 \<and> (2::nat) \<le> 3 \<and> length ''abc'' = 3
   \<and> (\<exists>f outs. add_readings (CharacterBasedSmoothingFilter_new 3 2) [''abc'', ''abc'', ''abc''] = Inr (f, outs)
           \<and> length outs = 3 \<and> last outs = ''abc'')"
  using same_word_converges[of 2 3 "''abc''"] by (simp add: numeral_3_eq_3)

text \<open>
  With a window size of 0 the claim as written fails: the window is empty after the
  \<^verbatim>\<open>pop_front\<close>, \<^verbatim>\<open>max_element\<close> returns the end iterator, and the call
  returns NUL, not the word.
\<close>
theorem same_word_zero_window:
  "add_readings (CharacterBasedSmoothingFilter_new 1 0) (replicate 1 ''A'')
     = Inr (\<lparr>word_length = 1, window_size = 0, readings = [[]]\<rparr>, [[CHR 0x00]])"
  by (simp add: CharacterBasedSmoothingFilter_new_def add_reading_def normalize_word_def
      add_reading_body_def push_reading_def most_common_char_def max_element_def)

text \<open>
  C1 as written fails for a window of 3: after three \<^verbatim>\<open>"A"\<close>, the second
  \<^verbatim>\<open>"B"\<close> already returns \<^verbatim>\<open>"B"\<close> (window \<^verbatim>\<open>ABB\<close>), not the third.
\<close>
theorem window_three_flips_at_second_B:
  "add_readings (CharacterBasedSmoothingFilter_new 1 3) [''A'', ''A'', ''A'', ''B'', ''B'']
     = Inr (\<lparr>word_length = 1, window_size = 3, readings = [''ABB'']\<rparr>,
            [[CHR 0x00], ''A'', ''A'', ''A'', ''B''])"
  by code_simp

text \<open>
  Claim C1, amended. Word length 1, window size \<open>ws \<ge> 1\<close>, after any earlier calls:
  after \<open>ws\<close> calls with \<^verbatim>\<open>"A"\<close>, the \<open>j\<close>-th following call with \<^verbatim>\<open>"B"\<close> returns
  \<^verbatim>\<open>"A"\<close> as long as the \<^verbatim>\<open>B\<close>s are at most half of the window (\<open>2 * j \<le> ws\<close>)
  and \<^verbatim>\<open>"B"\<close> as soon as they outnumber the \<^verbatim>\<open>A\<close>s (\<open>ws < 2 * j\<close>).
\<close>
theorem majority_holds_until_outnumbered:
  assumes "0 < ws" "0 < j"
  shows "\<exists>f outs. add_readings (CharacterBasedSmoothingFilter_new 1 ws)
                     (history @ replicate ws ''A'' @ replicate j ''B'') = Inr (f, outs)
           \<and> length outs = length history + ws + j
           \<and> last outs = (if ws < 2 * j then ''B'' else ''A'')"
proof -
  let ?f = "CharacterBasedSmoothingFilter_new 1 ws"
  from add_readings_total[OF filter_inv_new, of 1 ws history]
  obtain f0 outs0 where
    0: "add_readings ?f history = Inr (f0, outs0)" "length outs0 = length history"
    by blast
  from filter_inv_add_readings[OF filter_inv_new 0(1)] have inv0: "filter_inv 1 ws f0" .
  then have len0: "length (readings f0 ! 0) = ws"
    by (simp add: filter_inv_def list_all_length)
  from add_readings_same_word[OF assms(1) inv0, of ws "''A''"]
  obtain f1 outs1 where
    1: "add_readings f0 (replicate ws ''A'') = Inr (f1, outs1)" "length outs1 = ws"
       "filter_inv 1 ws f1"
       "readings f1 ! 0 = drop ws (readings f0 ! 0) @ replicate (min ws ws) (normalize_word 1 ''A'' ! 0)"
    by auto
  from 1(4) len0 have w1: "readings f1 ! 0 = replicate ws (CHR ''A'')"
    by (simp add: normalize_word_def)
  from add_readings_same_word[OF assms(1) 1(3), of j "''B''"] assms(2)
  obtain f2 outs2 where
    2: "add_readings f1 (replicate j ''B'') = Inr (f2, outs2)" "length outs2 = j"
       "readings f2 ! 0 = drop j (readings f1 ! 0) @ replicate (min j ws) (normalize_word 1 ''B'' ! 0)"
       "length (last outs2) = 1" "last outs2 ! 0 = most_common_char (readings f2 ! 0)"
    by auto
  from 2(3) w1 have "readings f2 ! 0 = replicate (ws - j) (CHR ''A'') @ replicate (min j ws) (CHR ''B'')"
    by (simp add: normalize_word_def)
  moreover have "most_common_char (replicate (ws - j) (CHR ''A'') @ replicate (min j ws) (CHR ''B''))
                   = (if ws - j < min j ws then CHR ''B'' else CHR ''A'')"
    using assms by (intro most_common_char_two_runs) auto
  moreover have "(ws - j < min j ws) = (ws < 2 * j)"
    using assms by (auto simp: min_def)
  ultimately have "last outs2 ! 0 = (if ws < 2 * j then CHR ''B'' else CHR ''A'')"
    using 2(5) by simp
  with 2(4) have l: "last outs2 = (if ws < 2 * j then ''B'' else ''A'')"
    by (cases "last outs2") auto
  from 2(2) assms(2) have "outs2 \<noteq> []" by auto
  then have "last (outs0 @ outs1 @ outs2) = last outs2" by simp
  with 0 1(1,2) 2(1,2) l show ?thesis
    by (simp add: add_readings_append)
qed

theorem majority_holds_until_outnumbered_witness:
  "(0::nat) < 4 \<and> (0::nat) < 2
   \<and> (\<exists>f outs. add_readings (CharacterBasedSmoothingFilter_new 1 4)
                     [''x'', ''A'', ''A'', ''A'', ''A'', ''B'', ''B''] = Inr (f, outs)
           \<and> length outs = 7 \<and> last outs = ''A'')"
  using majority_holds_until_outnumbered[of 4 2 "[''x'']"] by (simp add: eval_nat_numeral)

text \<open>
  Claim C6. After any sequence of calls on a fresh filter, for every window size and
  word length, \<^verbatim>\<open>add_reading\<close> returns, for an input of any length, a string of
  exactly \<^verbatim>\<open>word_length\<close> characters; the word pushed into the windows is the input cut
  to \<^verbatim>\<open>word_length\<close> when it is longer and padded with spaces on the right otherwise.
\<close>
theorem add_reading_word_length:
  "\<exists>f outs. add_readings (CharacterBasedSmoothingFilter_new wl ws) history = Inr (f, outs)
           \<and> (\<exists>f' out. add_reading f inWord = Inr (f', out) \<and> length out = wl
                 \<and> (let word = (if wl < length inWord then take wl inWord
                                  else inWord @ replicate (wl - length inWord) (CHR '' ''))
                     in length word = wl
                        \<and> (\<forall>i<wl. readings f' ! i = push_reading ws (readings f ! i) (word ! i))))"
proof -
  from add_readings_total[OF filter_inv_new, of wl ws history]
  obtain f outs where 1: "add_readings (CharacterBasedSmoothingFilter_new wl ws) history = Inr (f, outs)"
    by blast
  from filter_inv_add_readings[OF filter_inv_new 1]
  have inv: "word_length f = wl" "window_size f = ws" "length (readings f) = wl"
    by (simp_all add: filter_inv_def)
  then obtain f' out where 2: "add_reading f inWord = Inr (f', out)"
    using add_reading_total[of f inWord] by auto
  note r = add_reading_result[OF 2]
  have "\<forall>i<wl. readings f' ! i = push_reading ws (readings f ! i) (normalize_word wl inWord ! i)"
    using r inv by auto
  moreover have "length out = wl"
    using r inv by simp
  ultimately show ?thesis
    using 1 2 length_normalize_word[of wl inWord]
    by (auto simp: normalize_word_eq Let_def)
qed

theorem add_reading_word_length_witness:
  "(\<exists>f outs f' out. add_readings (CharacterBasedSmoothingFilter_new 2 3) [''x''] = Inr (f, outs)
          \<and> add_reading f ''hello'' = Inr (f', out) \<and> length out = 2
          \<and> readings f' ! 0 = push_reading 3 (readings f ! 0) (CHR ''h''))
   \<and> (\<exists>f outs f' out. add_readings (CharacterBasedSmoothingFilter_new 2 0) [''x''] = Inr (f, outs)
          \<and> add_reading f ''h'' = Inr (f', out) \<and> length out = 2
          \<and> readings f' ! 1 = push_reading 0 (readings f ! 1) (CHR '' ''))"
proof -
  from add_reading_word_length[of 2 3 "[''x'']" "''hello''"]
  obtain f outs f' out where
    1: "add_readings (CharacterBasedSmoothingFilter_new 2 3) [''x''] = Inr (f, outs)"
       "add_reading f ''hello'' = Inr (f', out)" "length out = 2"
    and 2: "\<forall>i<2. readings f' ! i = push_reading 3 (readings f ! i) (take 2 ''hello'' ! i)"
    by (auto simp: Let_def)
  from 2 have 3: "readings f' ! 0 = push_reading 3 (readings f ! 0) (CHR ''h'')"
    by simp
  from add_reading_word_length[of 2 0 "[''x'']" "''h''"]
  obtain g outs' g' out' where
    4: "add_readings (CharacterBasedSmoothingFilter_new 2 0) [''x''] = Inr (g, outs')"
       "add_reading g ''h'' = Inr (g', out')" "length out' = 2"
    and 5: "\<forall>i<2. readings g' ! i = push_reading 0 (readings g ! i) ((''h'' @ replicate 1 (CHR '' '')) ! i)"
    by (auto simp: Let_def)
  from 5 have 6: "readings g' ! 1 = push_reading 0 (readings g ! 1) (CHR '' '')"
    by simp
  from 1 3 4 6 show ?thesis by blast
qed

text \<open>
  C7 as written (no restriction on the window size) fails for a window size of 0: the
  window is empty, and the emitted character, NUL, is not an element of it.
\<close>
theorem zero_window_vote_outside_window:
  "add_reading (CharacterBasedSmoothingFilter_new 1 0) ''A''
     = Inr (\<lparr>word_length = 1, window_size = 0, readings = [[]]\<rparr>, [CHR 0x00])
   \<and> CHR 0x00 \<notin> set ([] :: char list)"
  by (simp add: CharacterBasedSmoothingFilter_new_def add_reading_def normalize_word_def
      add_reading_body_def push_reading_def most_common_char_def max_element_def)

text \<open>
  Claim C7, for a window size of at least 1. After any sequence of calls on a fresh
  filter, the character that \<^verbatim>\<open>add_reading\<close> emits for position \<open>i\<close> occurs in the
  window of that position (after the push and the pop), no character occurs more often
  there, and it is the first element of the window, from the oldest reading to the newest,
  whose count is the maximum.
\<close>
theorem add_reading_earliest_most_common:
  assumes "0 < ws"
  shows "\<exists>f outs. add_readings (CharacterBasedSmoothingFilter_new wl ws) history = Inr (f, outs)
           \<and> (\<exists>f' out. add_reading f inWord = Inr (f', out)
                 \<and> (\<forall>i<wl.
                       readings f' ! i
                         = push_reading ws (readings f ! i) (normalize_word wl inWord ! i)
                       \<and> out ! i \<in> set (readings f' ! i)
                       \<and> (\<forall>c. count_list (readings f' ! i) c
                                 \<le> count_list (readings f' ! i) (out ! i))
                       \<and> List.find (\<lambda>a. \<forall>d\<in>set (readings f' ! i).
                                          count_list (readings f' ! i) d \<le> count_list (readings f' ! i) a)
                            (readings f' ! i) = Some (out ! i)))"
proof -
  from add_readings_total[OF filter_inv_new, of wl ws history]
  obtain f outs where 1: "add_readings (CharacterBasedSmoothingFilter_new wl ws) history = Inr (f, outs)"
    by blast
  from filter_inv_add_readings[OF filter_inv_new 1]
  have inv: "word_length f = wl" "window_size f = ws" "length (readings f) = wl"
    by (simp_all add: filter_inv_def)
  then obtain f' out where 2: "add_reading f inWord = Inr (f', out)"
    using add_reading_total[of f inWord] by auto
  note r = add_reading_result[OF 2]
  have "readings f' ! i = push_reading ws (readings f ! i) (normalize_word wl inWord ! i)
        \<and> out ! i \<in> set (readings f' ! i)
        \<and> (\<forall>c. count_list (readings f' ! i) c \<le> count_list (readings f' ! i) (out ! i))
        \<and> List.find (\<lambda>a. \<forall>d\<in>set (readings f' ! i).
                           count_list (readings f' ! i) d \<le> count_list (readings f' ! i) a)
             (readings f' ! i) = Some (out ! i)" if i: "i < wl" for i
  proof -
    from r inv i have win: "readings f' ! i
        = push_reading ws (readings f ! i) (normalize_word wl inWord ! i)"
      and vote: "out ! i = most_common_char (readings f' ! i)"
      by auto
    from win assms have ne: "readings f' ! i \<noteq> []"
      by (simp add: push_reading_nonempty)
    from most_common_char_spec[OF ne] vote
    have "out ! i \<in> set (readings f' ! i)"
      and "\<forall>c. count_list (readings f' ! i) c \<le> count_list (readings f' ! i) (out ! i)"
      by auto
    with win most_common_char_find[OF ne] vote show ?thesis by simp
  qed
  with 1 2 show ?thesis by blast
qed

theorem add_reading_earliest_most_common_witness:
  "(0::nat) < 4
   \<and> add_readings (CharacterBasedSmoothingFilter_new 1 4) [''x'', ''b'', ''a'', ''a'']
       = Inr (\<lparr>word_length = 1, window_size = 4, readings = [''xbaa'']\<rparr>,
              [[CHR 0x00], [CHR 0x00], [CHR 0x00], ''a''])
   \<and> add_reading \<lparr>word_length = 1, window_size = 4, readings = [''xbaa'']\<rparr> ''b''
       = Inr (\<lparr>word_length = 1, window_size = 4, readings = [''baab'']\<rparr>, ''b'')
   \<and> CHR ''b'' \<in> set ''baab''
   \<and> count_list ''baab'' (CHR ''a'') \<le> count_list ''baab'' (CHR ''b'')
   \<and> count_list ''baab'' (CHR ''b'') \<le> count_list ''baab'' (CHR ''a'')"
proof -
  let ?f = "\<lparr>word_length = 1, window_size = 4, readings = [''xbaa'']\<rparr>"
  let ?f' = "\<lparr>word_length = 1, window_size = 4, readings = [''baab'']\<rparr>"
  have h: "(0::nat) < 4" by simp
  have hist: "add_readings (CharacterBasedSmoothingFilter_new 1 4) [''x'', ''b'', ''a'', ''a'']
       = Inr (?f, [[CHR 0x00], [CHR 0x00], [CHR 0x00], ''a''])"
    by code_simp
  have run: "add_reading ?f ''b'' = Inr (?f', ''b'')"
    by code_simp
  from add_reading_earliest_most_common[OF h, of 1 "[''x'', ''b'', ''a'', ''a'']" "''b''"]
  obtain f outs f' out where
    1: "add_readings (CharacterBasedSmoothingFilter_new 1 4) [''x'', ''b'', ''a'', ''a'']
          = Inr (f, outs)"
    and 2: "add_reading f ''b'' = Inr (f', out)"
    and 3: "out ! 0 \<in> set (readings f' ! 0)"
    by auto
  from 1 hist have "f = ?f" by simp
  with 2 run have "f' = ?f'" "out = ''b''" by simp_all
  with 3 have "CHR ''b'' \<in> set ''baab''" by simp
  with hist run show ?thesis by simp
qed

section \<open>Properties of recognition, region extraction and the worker loop\<close>

subsection \<open>32-bit integers\<close>

lemma int32_id: "fits_int32 v \<Longrightarrow> int32 v = v"
  by (simp add: fits_int32_def int32_def)

lemma fits_int32_int32: "fits_int32 (int32 v)"
proof -
  have "0 \<le> (v + 2 ^ 31) mod (2 ^ 32 :: int)" "(v + 2 ^ 31) mod (2 ^ 32 :: int) < 2 ^ 32"
    by simp_all
  then show ?thesis
    by (simp add: fits_int32_def int32_def)
qed

lemma int32_small: "\<bar>v\<bar> < 2 ^ 25 \<Longrightarrow> int32 v = v"
  by (rule int32_id) (auto simp: fits_int32_def)

subsection \<open>Single-precision rounding\<close>

lemma f32_exponent_spec:
  "e0 \<le> 104 \<Longrightarrow>
     e0 \<le> f32_exponent v e0 \<and> f32_exponent v e0 \<le> 104
     \<and> (f32_exponent v e0 < 104 \<longrightarrow> v < 2 powi (f32_exponent v e0 + 24))
     \<and> (e0 < f32_exponent v e0 \<longrightarrow> 2 powi (f32_exponent v e0 + 23) \<le> v)"
proof (induction v e0 rule: f32_exponent.induct)
  case (1 v e)
  show ?case
  proof (cases "104 \<le> e \<or> v < 2 powi (e + 24)")
    case True
    then have "f32_exponent v e = e"
      by (subst f32_exponent.simps) simp
    with True "1.prems" show ?thesis by auto
  next
    case False
    then have eq: "f32_exponent v e = f32_exponent v (e + 1)"
      by (subst f32_exponent.simps) simp
    from False have "e + 1 \<le> 104" by simp
    from "1.IH"[OF False this] have IH:
      "e + 1 \<le> f32_exponent v (e + 1)" "f32_exponent v (e + 1) \<le> 104"
      "f32_exponent v (e + 1) < 104 \<longrightarrow> v < 2 powi (f32_exponent v (e + 1) + 24)"
      "e + 1 < f32_exponent v (e + 1) \<longrightarrow> 2 powi (f32_exponent v (e + 1) + 23) \<le> v"
      by auto
    have "2 powi (f32_exponent v (e + 1) + 23) \<le> v"
    proof (cases "e + 1 < f32_exponent v (e + 1)")
      case True
      with IH(4) show ?thesis by simp
    next
      case False
      with IH(1) have "f32_exponent v (e + 1) = e + 1" by simp
      moreover from \<open>\<not> (104 \<le> e \<or> v < 2 powi (e + 24))\<close> have "2 powi (e + 24) \<le> v" by simp
      ultimately show ?thesis by (simp add: add.commute add.left_commute)
    qed
    with IH eq show ?thesis by auto
  qed
qed

lemma f32_exponent_eq:
  assumes "- 149 \<le> e" "e \<le> 104" "v < 2 powi (e + 24)" "e = - 149 \<or> 2 powi (e + 23) \<le> v"
  shows "f32_exponent v (- 149) = e"
proof -
  let ?e = "f32_exponent v (- 149)"
  from f32_exponent_spec[of "- 149" v] have s:
    "- 149 \<le> ?e" "?e \<le> 104" "?e < 104 \<longrightarrow> v < 2 powi (?e + 24)"
    "- 149 < ?e \<longrightarrow> 2 powi (?e + 23) \<le> v"
    by auto
  have "\<not> ?e < e"
  proof
    assume lt: "?e < e"
    with assms(2) s(3) have "v < 2 powi (?e + 24)" by simp
    also from lt have "2 powi (?e + 24) \<le> (2::real) powi (e + 23)"
      by (intro power_int_increasing) auto
    finally have "v < 2 powi (e + 23)" .
    moreover from lt s(1) assms(4) have "2 powi (e + 23) \<le> v" by auto
    ultimately show False by simp
  qed
  moreover have "\<not> e < ?e"
  proof
    assume lt: "e < ?e"
    with assms(1) s(4) have "2 powi (?e + 23) \<le> v" by simp
    moreover from lt have "2 powi (e + 24) \<le> (2::real) powi (?e + 23)"
      by (intro power_int_increasing) auto
    ultimately show False using assms(3) by simp
  qed
  ultimately show ?thesis by simp
qed

lemma round_to_even_error: "\<bar>of_int (round_to_even v) - v\<bar> \<le> 1 / 2"
  unfolding round_to_even_def Let_def by (auto simp: abs_if) linarith+

lemma round_to_even_of_int: "round_to_even (of_int n) = n"
  by (simp add: round_to_even_def)

lemma f32_eq:
  assumes "- 149 \<le> e" "e \<le> 104" "\<bar>v\<bar> < 2 powi (e + 24)" "e = - 149 \<or> 2 powi (e + 23) \<le> \<bar>v\<bar>"
  shows "f32 v = of_int (round_to_even (v / 2 powi e)) * 2 powi e"
  using f32_exponent_eq[OF assms] by (simp add: f32_def Let_def)


lemma f32_rel_error:
  assumes "2 powi (- 126) \<le> \<bar>v\<bar>"
  shows "\<bar>f32 v - v\<bar> \<le> \<bar>v\<bar> / 2 ^ 24"
proof -
  define e where "e = f32_exponent \<bar>v\<bar> (- 149)"
  define q :: real where "q = 2 powi e"
  from f32_exponent_spec[of "- 149" "\<bar>v\<bar>"] have s:
    "- 149 \<le> e" "- 149 < e \<longrightarrow> 2 powi (e + 23) \<le> \<bar>v\<bar>"
    by (auto simp: e_def)
  have q0: "0 < q" by (simp add: q_def)
  have "2 powi (e + 23) \<le> \<bar>v\<bar>"
  proof (cases "- 149 < e")
    case True
    with s show ?thesis by simp
  next
    case False
    with s have "e = - 149" by simp
    with assms show ?thesis by simp
  qed
  then have qv: "q * 2 ^ 23 \<le> \<bar>v\<bar>"
    by (simp add: q_def power_int_add)
  have "f32 v - v = (of_int (round_to_even (v / q)) - v / q) * q"
    using q0 by (simp add: f32_def q_def e_def Let_def algebra_simps)
  then have "\<bar>f32 v - v\<bar> = \<bar>of_int (round_to_even (v / q)) - v / q\<bar> * q"
    using q0 by (simp add: abs_mult)
  also have "\<dots> \<le> (1 / 2) * q"
    using round_to_even_error[of "v / q"] q0 by (intro mult_right_mono) auto
  also have "\<dots> \<le> \<bar>v\<bar> / 2 ^ 24"
    using qv by simp
  finally show ?thesis .
qed


lemma f32_of_int_exact:
  assumes "\<bar>n\<bar> < 2 ^ 24"
  shows "f32 (of_int n) = of_int n"
proof -
  define e where "e = f32_exponent \<bar>of_int n\<bar> (- 149)"
  from f32_exponent_spec[of "- 149" "\<bar>of_int n\<bar>"] have s:
    "- 149 \<le> e" "- 149 < e \<longrightarrow> 2 powi (e + 23) \<le> \<bar>real_of_int n\<bar>"
    by (auto simp: e_def)
  have "e \<le> 0"
  proof (rule ccontr)
    assume "\<not> e \<le> 0"
    then have e: "1 \<le> e" by simp
    with s have "2 powi (e + 23) \<le> \<bar>real_of_int n\<bar>" by simp
    moreover from e have "(2::real) powi 24 \<le> 2 powi (e + 23)"
      by (intro power_int_increasing) auto
    moreover from assms have "\<bar>real_of_int n\<bar> < 2 ^ 24"
      by (metis of_int_abs of_int_less_numeral_power_cancel_iff)
    ultimately show False by simp
  qed
  then obtain k where k: "e = - int k"
    by (metis int_nat_eq minus_minus neg_0_le_iff_le zle_iff_zadd add_0)
  have q: "(2::real) powi e = 1 / 2 ^ k"
    by (simp add: k power_int_minus field_simps)
  have "real_of_int n / 2 powi e = of_int (n * 2 ^ k)"
    by (simp add: q)
  then have "round_to_even (real_of_int n / 2 powi e) = n * 2 ^ k"
    by (simp only: round_to_even_of_int)
  then show ?thesis
    by (simp add: f32_def e_def[symmetric] Let_def q)
qed

lemma c_trunc_nonneg: "0 \<le> v \<Longrightarrow> c_trunc v = \<lfloor>v\<rfloor>"
  by (simp add: c_trunc_def)


lemma rel_error_bounds:
  fixes v w :: real
  assumes "\<bar>w - v\<bar> \<le> \<bar>v\<bar> / 2 ^ 24" "0 \<le> v"
  shows "v * (1 - 1 / 2 ^ 24) \<le> w" and "w \<le> v * (1 + 1 / 2 ^ 24)"
proof -
  from assms have "\<bar>w - v\<bar> \<le> v / 2 ^ 24" by simp
  then have "w - v \<le> v / 2 ^ 24" "v - w \<le> v / 2 ^ 24" by linarith+
  then show "v * (1 - 1 / 2 ^ 24) \<le> w" and "w \<le> v * (1 + 1 / 2 ^ 24)"
    by (simp_all add: algebra_simps)
qed

lemma change_threshold_bounds:
  assumes t: "1 \<le> t" "t \<le> 100" and A: "1 \<le> c * r" "c * r \<le> 8388607"
  defines "x \<equiv> real_of_int t / 100 * real_of_int (c * r)"
  defines "T \<equiv> change_threshold_from_image_area t c r"
  shows "real_of_int T < x + 1" and "2 \<le> x \<Longrightarrow> 1 \<le> T" and "0 \<le> T"
    and "101 / 100 \<le> x \<Longrightarrow> 1 \<le> T" and "x \<le> 99 / 100 \<Longrightarrow> T = 0"
proof -
  define u :: real where "u = 1 / 2 ^ 24"
  define x0 :: real where "x0 = real_of_int t / 100"
  define a where "a = f32 x0"
  define p where "p = a * real_of_int (c * r)"
  define v where "v = f32 p"
  have ft: "f32 (of_int t) = of_int t"
    using t by (intro f32_of_int_exact) simp
  have fA: "f32 (of_int (c * r)) = of_int (c * r)"
    using A by (intro f32_of_int_exact) simp
  have iA: "int32 (c * r) = c * r"
    using A by (intro int32_small) simp
  have T: "T = c_trunc v"
    by (simp only: T_def change_threshold_from_image_area_def iA ft fA v_def p_def a_def x0_def)
  have x0: "1 / 100 \<le> x0" "x0 \<le> 1"
    using t by (simp_all add: x0_def)
  have Ar: "1 \<le> real_of_int (c * r)" "real_of_int (c * r) \<le> 8388607"
    using A by linarith+
  have "2 powi (- 126) \<le> \<bar>x0\<bar>"
    using x0 by (simp add: power_int_minus field_simps)
  from f32_rel_error[OF this] x0 have a: "x0 * (1 - u) \<le> a" "a \<le> x0 * (1 + u)"
    unfolding a_def u_def by (intro rel_error_bounds; simp)+
  have u: "0 < u" "u < 1" by (simp_all add: u_def)
  have a0: "1 / 100 * (1 - u) \<le> a"
  proof -
    have "1 / 100 * (1 - u) \<le> x0 * (1 - u)"
      using x0 u by (intro mult_right_mono) auto
    with a show ?thesis by simp
  qed
  then have apos: "0 < a" using u by (simp add: u_def) 
  have p: "x * (1 - u) \<le> p" "p \<le> x * (1 + u)"
  proof -
    have "x0 * (1 - u) * real_of_int (c * r) \<le> a * real_of_int (c * r)"
      using a Ar by (intro mult_right_mono) auto
    then show "x * (1 - u) \<le> p" by (simp add: x_def p_def x0_def algebra_simps)
    have "a * real_of_int (c * r) \<le> x0 * (1 + u) * real_of_int (c * r)"
      using a Ar by (intro mult_right_mono) auto
    then show "p \<le> x * (1 + u)" by (simp add: x_def p_def x0_def algebra_simps)
  qed
  have pa: "a \<le> p"
    using Ar apos by (simp add: p_def mult_le_cancel_left1)
  with apos have ppos: "0 < p" by simp
  have "2 powi (- 126) \<le> 1 / 100 * (1 - u)"
    by (simp add: u_def power_int_minus field_simps)
  with a0 pa ppos have "2 powi (- 126) \<le> \<bar>p\<bar>" by simp
  from f32_rel_error[OF this] ppos have v: "p * (1 - u) \<le> v" "v \<le> p * (1 + u)"
    unfolding v_def u_def by (intro rel_error_bounds; simp)+
  have xr: "0 \<le> x" "x \<le> 8388607"
  proof -
    show "0 \<le> x" using x0 Ar by (simp add: x_def x0_def)
    have "x0 * real_of_int (c * r) \<le> 1 * real_of_int (c * r)"
      using x0 Ar by (intro mult_right_mono) auto
    with Ar show "x \<le> 8388607" by (simp add: x_def x0_def)
  qed
  have vup: "v \<le> x * ((1 + u) * (1 + u))"
  proof -
    have "p * (1 + u) \<le> x * (1 + u) * (1 + u)"
      using p u by (intro mult_right_mono) auto
    with v show ?thesis by (simp add: mult.assoc)
  qed
  have vlo: "x * ((1 - u) * (1 - u)) \<le> v"
  proof -
    have "x * (1 - u) * (1 - u) \<le> p * (1 - u)"
      using p u by (intro mult_right_mono) auto
    with v show ?thesis by (simp add: mult.assoc)
  qed
  have vpos: "0 \<le> v"
  proof -
    have "0 \<le> x * ((1 - u) * (1 - u))" using xr u by simp
    with vlo show ?thesis by simp
  qed
  have "x * ((1 + u) * (1 + u)) = x + x * (2 * u + u * u)"
    by (simp add: algebra_simps)
  also have "x * (2 * u + u * u) \<le> 8388607 * (2 * u + u * u)"
    using xr u by (intro mult_right_mono) auto
  also have "8388607 * (2 * u + u * u) < 1"
    by (simp add: u_def)
  finally have "x * ((1 + u) * (1 + u)) < x + 1" by simp
  with vup have "v < x + 1" by simp
  moreover have "real_of_int \<lfloor>v\<rfloor> \<le> v" by simp
  ultimately have "real_of_int \<lfloor>v\<rfloor> < x + 1" by linarith
  then show "real_of_int T < x + 1"
    using vpos by (simp add: T c_trunc_nonneg)
  show "0 \<le> T" using vpos by (simp add: T c_trunc_nonneg)
  show "1 \<le> T" if "2 \<le> x"
  proof -
    have "1 \<le> 2 * ((1 - u) * (1 - u))" by (simp add: u_def)
    also have "\<dots> \<le> x * ((1 - u) * (1 - u))"
      using that u by (intro mult_right_mono) auto
    finally have "1 \<le> v" using vlo by simp
    then have "1 \<le> \<lfloor>v\<rfloor>" by linarith
    with vpos show ?thesis by (simp add: T c_trunc_nonneg)
  qed
  show "1 \<le> T" if "101 / 100 \<le> x"
  proof -
    have "1 \<le> 101 / 100 * ((1 - u) * (1 - u))" by (simp add: u_def)
    also have "\<dots> \<le> x * ((1 - u) * (1 - u))"
      using that u by (intro mult_right_mono) auto
    finally have "1 \<le> v" using vlo by simp
    then have "1 \<le> \<lfloor>v\<rfloor>" by linarith
    with vpos show ?thesis by (simp add: T c_trunc_nonneg)
  qed
  show "T = 0" if "x \<le> 99 / 100"
  proof -
    have "x * ((1 + u) * (1 + u)) \<le> 99 / 100 * ((1 + u) * (1 + u))"
      using that u by (intro mult_right_mono) auto
    also have "\<dots> < 1" by (simp add: u_def)
    finally have "v < 1" using vup by simp
    with vpos have "\<lfloor>v\<rfloor> = 0" by linarith
    with vpos show ?thesis by (simp add: T c_trunc_nonneg)
  qed
qed













text \<open>
  Beyond \<open>2^24 + 2\<close> pixels the rounding can exceed one pixel, because the area itself
  is rounded up. For a threshold of 63 and a frame of 10831 by 1549 pixels
  (\<open>2^24 + 3\<close> pixels) the computed threshold is 10569649, while 63% of the area is
  10569647.97: a frame that differs in 10569648 pixels is skipped. For a threshold of 66
  and a frame of 8192 by 4320 pixels the computed threshold is 23357032, while 66% of the
  area is 23357030.4: a frame that differs in 23357031 pixels is skipped.
\<close>

lemma f32_63_percent: "f32 (63 / 100) = 10569646 / 2 ^ 24"
  using f32_eq[of "- 24" "63 / 100"] by (simp add: round_to_even_def power_int_minus)

lemma change_threshold_first_excess:
  "change_threshold_from_image_area 63 10831 1549 = 10569649"
proof -
  have a: "f32 63 = 63"
    using f32_of_int_exact[of 63] by simp
  have c: "f32 16777219 = 16777220"
    using f32_eq[of 1 "16777219"] by (simp add: round_to_even_def)
  have d: "f32 (10569646 / 2 ^ 24 * 16777220) = 10569649"
    using f32_eq[of 0 "10569646 / 2 ^ 24 * 16777220"] by (simp add: round_to_even_def)
  have "change_threshold_from_image_area 63 10831 1549
          = c_trunc (f32 (f32 (f32 63 / 100) * f32 16777219))"
    by (simp add: change_threshold_from_image_area_def int32_def)
  also have "\<dots> = c_trunc (f32 (f32 (63 / 100) * f32 16777219))"
    by (simp only: a)
  also have "\<dots> = c_trunc (f32 (10569646 / 2 ^ 24 * 16777220))"
    by (simp only: f32_63_percent c)
  also have "\<dots> = c_trunc 10569649"
    by (simp only: d)
  also have "\<dots> = 10569649"
    by (simp add: c_trunc_def)
  finally show ?thesis .
qed

lemma first_frame_skipped_above_percentage:
  "real_of_int 63 / 100 * real_of_int (10831 * 1549) < real_of_int 10569648
   \<and> skip_processing
        (sample_tf\<lparr>update_on_change_threshold := 63,
                    lastInputBGRA := \<lparr>cols = 10831, rows = 1549, data = replicate 67108876 0\<rparr>\<rparr>)
        (sample_inp\<lparr>countNonZero := 10569648\<rparr>)
        \<lparr>cols = 10831, rows = 1549, data = replicate 67108876 255\<rparr>"
  by (simp add: skip_processing_def sample_tf_def sample_inp_def Mat_size_def
      change_threshold_first_excess)

lemma change_threshold_rounding_example:
  "change_threshold_from_image_area 66 8192 4320 = 23357032"
proof -
  have a: "f32 66 = 66"
    using f32_of_int_exact[of 66] by simp
  have b: "f32 (66 / 100) = 11072963 / 2 ^ 24"
    using f32_eq[of "- 24" "66 / 100"] by (simp add: round_to_even_def power_int_minus)
  have c: "f32 35389440 = 35389440"
    using f32_eq[of 2 "35389440"] by (simp add: round_to_even_def)
  have d: "f32 (11072963 / 2 ^ 24 * 35389440) = 23357032"
    using f32_eq[of 1 "11072963 / 2 ^ 24 * 35389440"] by (simp add: round_to_even_def)
  have "change_threshold_from_image_area 66 8192 4320
          = c_trunc (f32 (f32 (f32 66 / 100) * f32 35389440))"
    by (simp add: change_threshold_from_image_area_def int32_def)
  also have "\<dots> = c_trunc (f32 (f32 (66 / 100) * f32 35389440))"
    by (simp only: a)
  also have "\<dots> = c_trunc (f32 (11072963 / 2 ^ 24 * 35389440))"
    by (simp only: b c)
  also have "\<dots> = c_trunc 23357032"
    by (simp only: d)
  also have "\<dots> = 23357032"
    by (simp add: c_trunc_def)
  finally show ?thesis .
qed

lemma large_frame_skipped_above_percentage:
  "real_of_int 66 / 100 * real_of_int (8192 * 4320) < real_of_int 23357031
   \<and> skip_processing
        (sample_tf\<lparr>update_on_change_threshold := 66,
                    lastInputBGRA := \<lparr>cols = 8192, rows = 4320, data = replicate 35389440 0\<rparr>\<rparr>)
        (sample_inp\<lparr>countNonZero := 23357031\<rparr>)
        \<lparr>cols = 8192, rows = 4320, data = replicate 35389440 255\<rparr>"
  by (simp add: skip_processing_def sample_tf_def sample_inp_def Mat_size_def
      change_threshold_rounding_example)

subsection \<open>Region extraction\<close>

lemma extract_boxes_loop_filter:
  "extract_boxes_loop tf level imageSize ris boxes
     = boxes @ map OCRBox_of (filter (region_kept tf level imageSize) ris)"
  by (induction ris arbitrary: boxes)
     (auto simp: region_kept_def OCRBox_of_def computed_area_def Let_def)

lemma computed_area_OCRBox_of:
  "computed_area ri = int32 (rect_width (box (OCRBox_of ri)) * rect_height (box (OCRBox_of ri)))"
  by (simp add: computed_area_def OCRBox_of_def)

lemma computed_area_fits:
  "region_fits ri \<Longrightarrow> computed_area ri = bounding_area ri"
  by (simp add: region_fits_def computed_area_def bounding_area_def int32_id)

lemma region_in_frame_fits:
  assumes "0 \<le> bb_left ri" "bb_left ri \<le> bb_right ri" "bb_right ri \<le> w"
    and "0 \<le> bb_top ri" "bb_top ri \<le> bb_bottom ri" "bb_bottom ri \<le> h"
    and "w < 2 ^ 31" "h < 2 ^ 31" "w * h < 2 ^ 31"
  shows "region_fits ri"
proof -
  let ?a = "bb_right ri - bb_left ri" and ?b = "bb_bottom ri - bb_top ri"
  from assms have a: "0 \<le> ?a" "?a \<le> w" and b: "0 \<le> ?b" "?b \<le> h"
    by simp_all
  then have "?a * ?b \<le> w * h"
    by (intro mult_mono) simp_all
  with assms(9) have "?a * ?b < 2 ^ 31"
    by simp
  moreover from a(1) b(1) have "0 \<le> ?a * ?b"
    by (rule mult_nonneg_nonneg)
  then have "- (2 ^ 31) \<le> ?a * ?b"
    by simp
  moreover from a assms(7) have "- (2 ^ 31) \<le> ?a" "?a < 2 ^ 31"
    by simp_all
  moreover from b assms(8) have "- (2 ^ 31) \<le> ?b" "?b < 2 ^ 31"
    by simp_all
  ultimately show ?thesis
    unfolding region_fits_def fits_int32_def bounding_area_def by blast
qed

text \<open>
  Where the product of the image dimensions overflows, the bound of the test is wrong for
  every region: in a frame of 65536 by 65536 pixels the computed image area is 0, and a
  region of 20 by 20 inside the frame is discarded.
\<close>

lemma overflowing_image_area_discards:
  "extract_text_detection_boxes sample_tf
     \<lparr>GetUTF8Text = None, MeanTextConf = 0,
      GetIterator = Some [\<lparr>Empty = False, Confidence = 80, bb_left = 10, bb_top = 10,
                           bb_right = 30, bb_bottom = 30, UTF8Text = ''a''\<rparr>]\<rparr>
     (65536, 65536)
     = []"
  by (simp add: extract_text_detection_boxes_def sample_tf_def detection_level_def
      PSM_SINGLE_CHAR_def c_trunc_def int32_def signed_divide_int_def Let_def)

lemma c_trunc_ge: "real_of_int t \<le> v \<Longrightarrow> t \<le> c_trunc v"
proof (cases "0 \<le> v")
  case True
  assume "real_of_int t \<le> v"
  with True show ?thesis by (simp add: c_trunc_def le_floor_iff)
next
  case False
  assume "real_of_int t \<le> v"
  also have "v \<le> real_of_int \<lceil>v\<rceil>" by simp
  finally have "t \<le> \<lceil>v\<rceil>" by simp
  with False show ?thesis by (simp add: c_trunc_def)
qed

subsection \<open>One pass of the loop\<close>

lemma run_tesseract_ocr_cache:
  "run_tesseract_ocr tf ans = Inr (tf', res) \<Longrightarrow> lastInputBGRA tf' = lastInputBGRA tf"
  by (auto simp: run_tesseract_ocr_def Let_def split: option.splits if_splits sum.splits)

lemma process_frame_cache:
  assumes "process_frame valid tf inp img = Inr (tf', out, ex)"
  shows "lastInputBGRA tf' = lastInputBGRA tf" and "ex \<noteq> ContinueStatement"
proof -
  show "lastInputBGRA tf' = lastInputBGRA tf"
  proof (cases "throws inp = ThrowInPreprocessing")
    case True
    with assms show ?thesis by (simp add: process_frame_def)
  next
    case False
    with assms obtain tf1 res where r: "run_tesseract_ocr tf (answer inp) = Inr (tf1, res)" and "tf' = tf1"
      by (auto simp: process_frame_def Let_def split: sum.splits if_splits)
    with run_tesseract_ocr_cache[OF r] show ?thesis by simp
  qed
  show "ex \<noteq> ContinueStatement"
    using assms by (auto simp: process_frame_def Let_def split: sum.splits if_splits)
qed

lemma Mat_empty_empty_Mat: "Mat_empty empty_Mat"
  by (simp add: Mat_empty_def empty_Mat_def)

lemma tesseract_thread_iteration_cases:
  "tesseract_thread_iteration valid tf inp =
     (if \<not> tesseract_thread_run tf then Inr (tf, no_outputs, Break)
      else if owns_lock inp \<and> \<not> Mat_empty (inputBGRA inp) then
        (case try_block valid tf inp (inputBGRA inp) of
           Inl e \<Rightarrow> Inl e
         | Inr (tf', out, ex) \<Rightarrow>
             Inr (tf', out, if ex = ContinueStatement then NextIterationWithoutSleep
                            else sleep_step tf' inp))
      else Inr (tf, no_outputs, sleep_step tf inp))"
  by (auto simp: tesseract_thread_iteration_def Let_def Mat_empty_empty_Mat
      split: sum.splits block_exit.splits)

text \<open>
  Every pass that is not stopped by the run flag and does not leave the \<^verbatim>\<open>try\<close> block
  through \<^verbatim>\<open>continue\<close> ends in the sleep step: without a frame (lock not acquired or
  empty buffer), after processing, and after a caught exception.
\<close>

lemma pass_reaches_sleep_step:
  assumes "tesseract_thread_iteration valid tf inp = Inr (tf', out, e)"
    "tesseract_thread_run tf"
    "\<not> (owns_lock inp \<and> \<not> Mat_empty (inputBGRA inp) \<and> skip_processing tf inp (inputBGRA inp)
        \<and> \<not> (throws inp = ThrowInAbsdiff))"
  shows "e = sleep_step tf' inp"
proof (cases "owns_lock inp \<and> \<not> Mat_empty (inputBGRA inp)")
  case False
  with assms(1,2) show ?thesis
    by (auto simp: tesseract_thread_iteration_cases split: if_splits)
next
  case True
  with assms(1,2) obtain ex where tb: "try_block valid tf inp (inputBGRA inp) = Inr (tf', out, ex)"
    and e: "e = (if ex = ContinueStatement then NextIterationWithoutSleep else sleep_step tf' inp)"
    by (auto simp: tesseract_thread_iteration_cases split: sum.splits)
  have "ex \<noteq> ContinueStatement"
  proof (cases "update_on_change tf \<and> Mat_size (inputBGRA inp) = Mat_size (lastInputBGRA tf)
                  \<and> throws inp = ThrowInAbsdiff")
    case True
    with tb show ?thesis by (simp add: try_block_def)
  next
    case False
    with assms(3) True have ns: "\<not> skip_processing tf inp (inputBGRA inp)"
      by (auto simp: skip_processing_def)
    with tb False have
      "process_frame valid (tf\<lparr>lastInputBGRA := inputBGRA inp\<rparr>) inp (inputBGRA inp) = Inr (tf', out, ex)"
      by (simp add: try_block_def)
    from process_frame_cache(2)[OF this] show ?thesis .
  qed
  with e show ?thesis by simp
qed


lemma strip_example: "strip '' 12:34 '' = ''12:34''"
  by code_simp

text \<open>
  A pass that processes the sample frame: the text is trimmed and sent, one box reaches
  the detection image, the cache is refreshed, and the pass sleeps for the rest of the
  period.
\<close>

lemma processed_pass_example:
  "tesseract_thread_iteration (\<lambda>name. True) sample_tf
       (sample_inp\<lparr>inputBGRA := changed_frame, countNonZero := 10000\<rparr>)
     = Inr (sample_tf\<lparr>lastInputBGRA := changed_frame\<rparr>,
            \<lparr>TextCallback = Some ''12:34'',
             TextDetectionMaskCallback =
               Some [\<lparr>box = \<lparr>rect_x = 10, rect_y = 10, rect_width = 20, rect_height = 20\<rparr>,
                      box_text = ''12:34''\<rparr>]\<rparr>,
            SleepStep (Some 95))"
proof -
  let ?inp = "sample_inp\<lparr>inputBGRA := changed_frame, countNonZero := 10000\<rparr>"
  let ?tf = "sample_tf\<lparr>lastInputBGRA := changed_frame\<rparr>"
  have "change_threshold_from_image_area 15 100 100 \<le> 10000"
    using change_threshold_bounds(1)[of 15 100 100] by simp
  then have noskip: "\<not> skip_processing sample_tf ?inp changed_frame"
    by (simp add: skip_processing_def sample_tf_def sample_inp_def changed_frame_def)
  have ocr: "run_tesseract_ocr ?tf sample_answer = Inr (?tf, ''12:34'')"
    by (simp add: run_tesseract_ocr_def sample_answer_def sample_tf_def strip_example)
  have boxes: "extract_text_detection_boxes ?tf sample_answer (100, 100)
     = [\<lparr>box = \<lparr>rect_x = 10, rect_y = 10, rect_width = 20, rect_height = 20\<rparr>,
         box_text = ''12:34''\<rparr>]"
    by (simp add: extract_text_detection_boxes_def sample_answer_def sample_tf_def detection_level_def
      PSM_SINGLE_CHAR_def c_trunc_def int32_def signed_divide_int_def Let_def)
  have "process_frame (\<lambda>name. True) ?tf ?inp changed_frame
          = Inr (?tf, \<lparr>TextCallback = Some ''12:34'',
             TextDetectionMaskCallback =
               Some [\<lparr>box = \<lparr>rect_x = 10, rect_y = 10, rect_width = 20, rect_height = 20\<rparr>,
                      box_text = ''12:34''\<rparr>]\<rparr>, EndOfBlock)"
    using ocr boxes
    by (simp add: process_frame_def sample_inp_def no_outputs_def Mat_size_def changed_frame_def)
  with noskip have "try_block (\<lambda>name. True) sample_tf ?inp changed_frame
          = Inr (?tf, \<lparr>TextCallback = Some ''12:34'',
             TextDetectionMaskCallback =
               Some [\<lparr>box = \<lparr>rect_x = 10, rect_y = 10, rect_width = 20, rect_height = 20\<rparr>,
                      box_text = ''12:34''\<rparr>]\<rparr>, EndOfBlock)"
    by (simp add: try_block_def sample_inp_def)
  moreover have "sleep_step ?tf ?inp = SleepStep (Some 95)"
    by (simp add: sleep_step_def sleep_time_ms_def sample_tf_def sample_inp_def)
  moreover have "tesseract_thread_run sample_tf" "owns_lock ?inp" "inputBGRA ?inp = changed_frame"
    "\<not> Mat_empty changed_frame"
    by (simp_all add: sample_tf_def sample_inp_def changed_frame_def Mat_empty_def)
  ultimately show ?thesis
    by (simp add: tesseract_thread_iteration_cases)
qed

subsection \<open>The claims about recognition and the loop\<close>

text \<open>
  C4 as written (no bound on the regions or the image) fails where the 32-bit product
  overflows: in a frame of 1000 by 1000 pixels, a region of 65536 by 65537 has an area
  above half the image area, 500000, but the computed area is 65536 and the box is kept.
\<close>
theorem oversized_region_kept:
  "extract_text_detection_boxes sample_tf
     \<lparr>GetUTF8Text = None, MeanTextConf = 0,
      GetIterator = Some [\<lparr>Empty = False, Confidence = 80, bb_left = 0, bb_top = 0,
                           bb_right = 65536, bb_bottom = 65537, UTF8Text = ''a''\<rparr>]\<rparr>
     (1000, 1000)
     = [\<lparr>box = \<lparr>rect_x = 0, rect_y = 0, rect_width = 65536, rect_height = 65537\<rparr>,
         box_text = ''a''\<rparr>]
   \<and> (1000 * 1000) sdiv 2 < (65536 - 0) * (65537 - 0 :: int)"
  by (simp add: extract_text_detection_boxes_def sample_tf_def detection_level_def
      PSM_SINGLE_CHAR_def c_trunc_def int32_def signed_divide_int_def Let_def)

text \<open>
  Claim C4, where the 32-bit computations do not overflow: the product of the image
  dimensions is a value of type \<^verbatim>\<open>int\<close>, and so are the width, the height and the
  area of every region (as they are for regions inside a frame of fewer than \<open>2^31\<close>
  pixels, lemma \<open>region_in_frame_fits\<close>). The boxes returned by
  \<^verbatim>\<open>extract_text_detection_boxes\<close> are, in iteration order, those of the positions for
  which the loop body takes no \<^verbatim>\<open>continue\<close>. A region with an area below 100 is
  discarded, a region with an area above half the image area (C++ integer division) is
  discarded, and a non-empty region with an area from 100 to exactly half the image area
  is kept, given at word level a confidence at or above the threshold.
\<close>
theorem region_filtering:
  assumes "GetIterator ans = Some ris"
    and "fits_int32 (fst imageSize * snd imageSize)"
    and "\<forall>ri\<in>set ris. region_fits ri"
  shows "extract_text_detection_boxes tf ans imageSize
           = map OCRBox_of (filter (region_kept tf (detection_level tf) imageSize) ris)
    \<and> (\<forall>ri\<in>set ris.
          (bounding_area ri < 100
             \<longrightarrow> OCRBox_of ri \<notin> set (extract_text_detection_boxes tf ans imageSize))
        \<and> ((fst imageSize * snd imageSize) sdiv 2 < bounding_area ri
             \<longrightarrow> OCRBox_of ri \<notin> set (extract_text_detection_boxes tf ans imageSize))
        \<and> (\<not> Empty ri \<and> 100 \<le> bounding_area ri
             \<and> bounding_area ri \<le> (fst imageSize * snd imageSize) sdiv 2
             \<and> (detection_level tf = RIL_WORD
                  \<longrightarrow> real_of_int (conf_threshold tf) \<le> Confidence ri)
            \<longrightarrow> OCRBox_of ri \<in> set (extract_text_detection_boxes tf ans imageSize)))"
proof -
  define level where "level = detection_level tf"
  define boxes where "boxes = extract_text_detection_boxes tf ans imageSize"
  define half where "half = (fst imageSize * snd imageSize) sdiv 2"
  have eq: "boxes = map OCRBox_of (filter (region_kept tf level imageSize) ris)"
    using assms(1) by (simp add: boxes_def extract_text_detection_boxes_def level_def
        extract_boxes_loop_filter Let_def)
  have half: "int32 (fst imageSize * snd imageSize) sdiv 2 = half"
    using assms(2) by (simp add: int32_id half_def)
  have out: "OCRBox_of ri \<notin> set boxes"
    if ri: "ri \<in> set ris" and area: "bounding_area ri < 100 \<or> half < bounding_area ri" for ri
  proof
    assume "OCRBox_of ri \<in> set boxes"
    with eq obtain ri' where ri': "ri' \<in> set ris" "region_kept tf level imageSize ri'"
      "OCRBox_of ri' = OCRBox_of ri"
      by auto
    from ri'(3) have "computed_area ri' = computed_area ri"
      by (simp add: computed_area_OCRBox_of)
    with ri ri'(1) assms(3) have "bounding_area ri' = bounding_area ri"
      by (simp add: computed_area_fits)
    moreover from ri'(1,2) assms(3) have "100 \<le> bounding_area ri'" "bounding_area ri' \<le> half"
      by (simp_all add: region_kept_def half computed_area_fits)
    ultimately show False
      using area by simp
  qed
  have kept: "OCRBox_of ri \<in> set boxes"
    if "ri \<in> set ris" "\<not> Empty ri" "100 \<le> bounding_area ri" "bounding_area ri \<le> half"
       "level = RIL_WORD \<longrightarrow> real_of_int (conf_threshold tf) \<le> Confidence ri" for ri
  proof -
    from that assms(3) have "region_kept tf level imageSize ri"
      by (simp add: region_kept_def half computed_area_fits c_trunc_ge)
    with that(1) eq show ?thesis by auto
  qed
  from eq out kept show ?thesis
    unfolding boxes_def level_def half_def by blast
qed

theorem region_filtering_witness:
  "GetIterator (sample_answer\<lparr>GetIterator := Some
       [\<lparr>Empty = False, Confidence = 80, bb_left = 10, bb_top = 10, bb_right = 30, bb_bottom = 30, UTF8Text = ''a''\<rparr>,
        \<lparr>Empty = False, Confidence = 80, bb_left = 0, bb_top = 0, bb_right = 10, bb_bottom = 5, UTF8Text = ''b''\<rparr>,
        \<lparr>Empty = False, Confidence = 80, bb_left = 0, bb_top = 0, bb_right = 100, bb_bottom = 50, UTF8Text = ''c''\<rparr>,
        \<lparr>Empty = False, Confidence = 80, bb_left = 0, bb_top = 0, bb_right = 100, bb_bottom = 51, UTF8Text = ''d''\<rparr>,
        \<lparr>Empty = True, Confidence = 80, bb_left = 10, bb_top = 10, bb_right = 30, bb_bottom = 30, UTF8Text = ''e''\<rparr>,
        \<lparr>Empty = False, Confidence = 599 / 10, bb_left = 10, bb_top = 10, bb_right = 30, bb_bottom = 30, UTF8Text = ''f''\<rparr>]\<rparr>)
    = Some
       [\<lparr>Empty = False, Confidence = 80, bb_left = 10, bb_top = 10, bb_right = 30, bb_bottom = 30, UTF8Text = ''a''\<rparr>,
        \<lparr>Empty = False, Confidence = 80, bb_left = 0, bb_top = 0, bb_right = 10, bb_bottom = 5, UTF8Text = ''b''\<rparr>,
        \<lparr>Empty = False, Confidence = 80, bb_left = 0, bb_top = 0, bb_right = 100, bb_bottom = 50, UTF8Text = ''c''\<rparr>,
        \<lparr>Empty = False, Confidence = 80, bb_left = 0, bb_top = 0, bb_right = 100, bb_bottom = 51, UTF8Text = ''d''\<rparr>,
        \<lparr>Empty = True, Confidence = 80, bb_left = 10, bb_top = 10, bb_right = 30, bb_bottom = 30, UTF8Text = ''e''\<rparr>,
        \<lparr>Empty = False, Confidence = 599 / 10, bb_left = 10, bb_top = 10, bb_right = 30, bb_bottom = 30, UTF8Text = ''f''\<rparr>]
  \<and> fits_int32 (fst (100 :: int, 100 :: int) * snd (100 :: int, 100 :: int))
  \<and> list_all region_fits
       [\<lparr>Empty = False, Confidence = 80, bb_left = 10, bb_top = 10, bb_right = 30, bb_bottom = 30, UTF8Text = ''a''\<rparr>,
        \<lparr>Empty = False, Confidence = 80, bb_left = 0, bb_top = 0, bb_right = 10, bb_bottom = 5, UTF8Text = ''b''\<rparr>,
        \<lparr>Empty = False, Confidence = 80, bb_left = 0, bb_top = 0, bb_right = 100, bb_bottom = 50, UTF8Text = ''c''\<rparr>,
        \<lparr>Empty = False, Confidence = 80, bb_left = 0, bb_top = 0, bb_right = 100, bb_bottom = 51, UTF8Text = ''d''\<rparr>,
        \<lparr>Empty = True, Confidence = 80, bb_left = 10, bb_top = 10, bb_right = 30, bb_bottom = 30, UTF8Text = ''e''\<rparr>,
        \<lparr>Empty = False, Confidence = 599 / 10, bb_left = 10, bb_top = 10, bb_right = 30, bb_bottom = 30, UTF8Text = ''f''\<rparr>]
  \<and> extract_text_detection_boxes sample_tf (sample_answer\<lparr>GetIterator := Some
       [\<lparr>Empty = False, Confidence = 80, bb_left = 10, bb_top = 10, bb_right = 30, bb_bottom = 30, UTF8Text = ''a''\<rparr>,
        \<lparr>Empty = False, Confidence = 80, bb_left = 0, bb_top = 0, bb_right = 10, bb_bottom = 5, UTF8Text = ''b''\<rparr>,
        \<lparr>Empty = False, Confidence = 80, bb_left = 0, bb_top = 0, bb_right = 100, bb_bottom = 50, UTF8Text = ''c''\<rparr>,
        \<lparr>Empty = False, Confidence = 80, bb_left = 0, bb_top = 0, bb_right = 100, bb_bottom = 51, UTF8Text = ''d''\<rparr>,
        \<lparr>Empty = True, Confidence = 80, bb_left = 10, bb_top = 10, bb_right = 30, bb_bottom = 30, UTF8Text = ''e''\<rparr>,
        \<lparr>Empty = False, Confidence = 599 / 10, bb_left = 10, bb_top = 10, bb_right = 30, bb_bottom = 30, UTF8Text = ''f''\<rparr>]\<rparr>)
       (100, 100)
    = [\<lparr>box = \<lparr>rect_x = 10, rect_y = 10, rect_width = 20, rect_height = 20\<rparr>, box_text = ''a''\<rparr>,
       \<lparr>box = \<lparr>rect_x = 0, rect_y = 0, rect_width = 100, rect_height = 50\<rparr>, box_text = ''c''\<rparr>]"
  (is "GetIterator ?a = Some ?ris \<and> _")
proof -
  have h: "GetIterator ?a = Some ?ris" by simp
  have i: "fits_int32 (fst (100 :: int, 100 :: int) * snd (100 :: int, 100 :: int))"
    by (simp add: fits_int32_def)
  have r: "list_all region_fits ?ris"
    by (simp add: region_fits_def fits_int32_def bounding_area_def)
  from region_filtering[OF h i r[unfolded list_all_iff], of sample_tf]
  have "extract_text_detection_boxes sample_tf ?a (100, 100)
          = map OCRBox_of (filter (region_kept sample_tf (detection_level sample_tf) (100, 100)) ?ris)"
    by blast
  also have "\<dots> = [\<lparr>box = \<lparr>rect_x = 10, rect_y = 10, rect_width = 20, rect_height = 20\<rparr>, box_text = ''a''\<rparr>,
       \<lparr>box = \<lparr>rect_x = 0, rect_y = 0, rect_width = 100, rect_height = 50\<rparr>, box_text = ''c''\<rparr>]"
    by (simp add: region_kept_def OCRBox_of_def computed_area_def int32_def detection_level_def
        sample_tf_def PSM_SINGLE_CHAR_def c_trunc_def signed_divide_int_def)
  finally show ?thesis using h i r by simp
qed

text \<open>
  Claim C8. If the mean confidence is strictly below \<^verbatim>\<open>conf_threshold\<close>,
  \<^verbatim>\<open>run_tesseract_ocr\<close> returns the empty string and leaves \<^verbatim>\<open>tf\<close>, the smoothing
  filter included, as it was; the pass still extracts the detection boxes when an image
  output is selected, and sends no text.
\<close>
theorem low_confidence_discards_text:
  assumes "MeanTextConf (answer inp) < conf_threshold tf"
  shows "run_tesseract_ocr tf (answer inp) = Inr (tf, [])
         \<and> (throws inp = NoThrow \<longrightarrow>
              process_frame valid tf inp imageBGRA
                = Inr (tf,
                       \<lparr>TextCallback = None,
                        TextDetectionMaskCallback =
                          (if valid (output_image_source_name tf)
                           then Some (extract_text_detection_boxes tf (answer inp) (Mat_size imageBGRA))
                           else None)\<rparr>,
                       EndOfBlock))"
proof -
  have r: "run_tesseract_ocr tf (answer inp) = Inr (tf, [])"
    using assms by (simp add: run_tesseract_ocr_def split: option.splits)
  then show ?thesis
    by (simp add: process_frame_def no_outputs_def)
qed

theorem low_confidence_discards_text_witness:
  "MeanTextConf (answer sample_inp_low_confidence) < conf_threshold sample_tf_smoothing
   \<and> enable_smoothing sample_tf_smoothing
   \<and> run_tesseract_ocr sample_tf_smoothing (answer sample_inp_low_confidence)
       = Inr (sample_tf_smoothing, [])
   \<and> process_frame (\<lambda>name. True) sample_tf_smoothing sample_inp_low_confidence still_frame
       = Inr (sample_tf_smoothing,
              \<lparr>TextCallback = None,
               TextDetectionMaskCallback =
                 Some [\<lparr>box = \<lparr>rect_x = 10, rect_y = 10, rect_width = 20, rect_height = 20\<rparr>,
                        box_text = ''12:34''\<rparr>]\<rparr>,
              EndOfBlock)"
proof -
  have h: "MeanTextConf (answer sample_inp_low_confidence) < conf_threshold sample_tf_smoothing"
    by (simp add: sample_inp_low_confidence_def sample_tf_smoothing_def sample_tf_def sample_answer_def)
  have t: "throws sample_inp_low_confidence = NoThrow"
    by (simp add: sample_inp_low_confidence_def sample_inp_def)
  have v: "enable_smoothing sample_tf_smoothing"
    by (simp add: sample_tf_smoothing_def)
  have boxes: "extract_text_detection_boxes sample_tf_smoothing (answer sample_inp_low_confidence)
                 (Mat_size still_frame)
     = [\<lparr>box = \<lparr>rect_x = 10, rect_y = 10, rect_width = 20, rect_height = 20\<rparr>,
         box_text = ''12:34''\<rparr>]"
    by (simp add: extract_text_detection_boxes_def sample_inp_low_confidence_def sample_answer_def
        sample_tf_smoothing_def sample_tf_def detection_level_def PSM_SINGLE_CHAR_def c_trunc_def
        int32_def signed_divide_int_def Let_def Mat_size_def still_frame_def)
  from low_confidence_discards_text[OF h, of "\<lambda>name. True" still_frame] t
  have "run_tesseract_ocr sample_tf_smoothing (answer sample_inp_low_confidence)
          = Inr (sample_tf_smoothing, [])"
    and "process_frame (\<lambda>name. True) sample_tf_smoothing sample_inp_low_confidence still_frame
          = Inr (sample_tf_smoothing,
                 \<lparr>TextCallback = None,
                  TextDetectionMaskCallback =
                    Some (extract_text_detection_boxes sample_tf_smoothing
                            (answer sample_inp_low_confidence) (Mat_size still_frame))\<rparr>,
                 EndOfBlock)"
    by (simp_all add: sample_tf_smoothing_def sample_tf_def)
  with h v show ?thesis
    by (simp only: boxes simp_thms)
qed

text \<open>
  Claim C9. After a pass, \<^verbatim>\<open>lastInputBGRA\<close> is the frame of this pass if the frame was
  obtained and went past the change check, and is unchanged otherwise; when the change
  check signals a skip, nothing of \<^verbatim>\<open>tf\<close> changes and nothing is published.
\<close>
theorem last_frame_cache:
  assumes "tesseract_thread_iteration valid tf inp = Inr (tf', out, e)"
  shows "lastInputBGRA tf' =
           (if tesseract_thread_run tf \<and> owns_lock inp \<and> \<not> Mat_empty (inputBGRA inp)
               \<and> \<not> (update_on_change tf \<and> Mat_size (inputBGRA inp) = Mat_size (lastInputBGRA tf)
                      \<and> throws inp = ThrowInAbsdiff)
               \<and> \<not> skip_processing tf inp (inputBGRA inp)
            then inputBGRA inp else lastInputBGRA tf)
         \<and> (tesseract_thread_run tf \<and> owns_lock inp \<and> \<not> Mat_empty (inputBGRA inp)
               \<and> throws inp \<noteq> ThrowInAbsdiff \<and> skip_processing tf inp (inputBGRA inp)
             \<longrightarrow> tf' = tf \<and> out = no_outputs \<and> e = NextIterationWithoutSleep)"
proof (cases "tesseract_thread_run tf \<and> owns_lock inp \<and> \<not> Mat_empty (inputBGRA inp)")
  case False
  with assms have "tf' = tf"
    by (auto simp: tesseract_thread_iteration_cases split: if_splits)
  with False show ?thesis by auto
next
  case True
  with assms obtain ex where tb: "try_block valid tf inp (inputBGRA inp) = Inr (tf', out, ex)"
    and e: "e = (if ex = ContinueStatement then NextIterationWithoutSleep else sleep_step tf' inp)"
    by (auto simp: tesseract_thread_iteration_cases split: sum.splits)
  show ?thesis
  proof (cases "update_on_change tf \<and> Mat_size (inputBGRA inp) = Mat_size (lastInputBGRA tf)
                  \<and> throws inp = ThrowInAbsdiff")
    case thrown: True
    with tb have "tf' = tf" by (simp add: try_block_def)
    with thrown True show ?thesis by simp
  next
    case nothrown: False
    show ?thesis
    proof (cases "skip_processing tf inp (inputBGRA inp)")
      case skip: True
      with tb nothrown have "tf' = tf" "out = no_outputs" "ex = ContinueStatement"
        by (simp_all add: try_block_def)
      moreover from this e have "e = NextIterationWithoutSleep"
        by simp
      ultimately show ?thesis using skip by simp
    next
      case noskip: False
      with tb nothrown have
        "process_frame valid (tf\<lparr>lastInputBGRA := inputBGRA inp\<rparr>) inp (inputBGRA inp) = Inr (tf', out, ex)"
        by (simp add: try_block_def)
      from process_frame_cache(1)[OF this] True nothrown noskip show ?thesis
        by simp
    qed
  qed
qed

theorem last_frame_cache_witness:
  "tesseract_thread_iteration (\<lambda>name. True) sample_tf
       (sample_inp\<lparr>inputBGRA := changed_frame, countNonZero := 10000\<rparr>)
     = Inr (sample_tf\<lparr>lastInputBGRA := changed_frame\<rparr>,
            \<lparr>TextCallback = Some ''12:34'',
             TextDetectionMaskCallback =
               Some [\<lparr>box = \<lparr>rect_x = 10, rect_y = 10, rect_width = 20, rect_height = 20\<rparr>,
                      box_text = ''12:34''\<rparr>]\<rparr>,
            SleepStep (Some 95))
   \<and> lastInputBGRA (sample_tf\<lparr>lastInputBGRA := changed_frame\<rparr>) = changed_frame
   \<and> changed_frame \<noteq> lastInputBGRA sample_tf"
proof -
  let ?inp = "sample_inp\<lparr>inputBGRA := changed_frame, countNonZero := 10000\<rparr>"
  note run = processed_pass_example
  have "change_threshold_from_image_area 15 100 100 \<le> 10000"
    using change_threshold_bounds(1)[of 15 100 100] by simp
  then have noskip: "\<not> skip_processing sample_tf ?inp (inputBGRA ?inp)"
    by (simp add: skip_processing_def sample_tf_def sample_inp_def changed_frame_def)
  have pre: "tesseract_thread_run sample_tf" "owns_lock ?inp" "\<not> Mat_empty (inputBGRA ?inp)"
    "throws ?inp \<noteq> ThrowInAbsdiff"
    by (simp_all add: sample_tf_def sample_inp_def changed_frame_def Mat_empty_def)
  from last_frame_cache[OF run] pre noskip
  have "lastInputBGRA (sample_tf\<lparr>lastInputBGRA := changed_frame\<rparr>) = inputBGRA ?inp"
    by (simp only: simp_thms if_True)
  moreover have "changed_frame \<noteq> lastInputBGRA sample_tf"
    by (simp add: sample_tf_def changed_frame_def still_frame_def)
  ultimately show ?thesis using run by simp
qed




text \<open>
  Claim C2 does not hold of the code: a pass in which the change check signals a skip
  leaves the loop body through \<^verbatim>\<open>continue\<close> and starts the next pass without the
  sleep step, although 95 ms of the period remain.
\<close>
theorem skipped_pass_does_not_sleep:
  "tesseract_thread_iteration (\<lambda>name. True) sample_tf sample_inp
     = Inr (sample_tf, no_outputs, NextIterationWithoutSleep)
   \<and> sleep_step sample_tf sample_inp = SleepStep (Some 95)"
proof -
  have "1 \<le> change_threshold_from_image_area 15 100 100"
    by (rule change_threshold_bounds(2)) simp_all
  then have "skip_processing sample_tf sample_inp still_frame"
    by (simp add: skip_processing_def sample_tf_def sample_inp_def still_frame_def)
  then have "tesseract_thread_iteration (\<lambda>name. True) sample_tf sample_inp
     = Inr (sample_tf, no_outputs, NextIterationWithoutSleep)"
    by (simp add: tesseract_thread_iteration_cases try_block_def sample_tf_def sample_inp_def
        still_frame_def Mat_empty_def)
  moreover have "sleep_step sample_tf sample_inp = SleepStep (Some 95)"
    by (simp add: sleep_step_def sleep_time_ms_def sample_tf_def sample_inp_def)
  ultimately show ?thesis by simp
qed

end
